theory Spec2Isabelle
  imports Complex_Main "HOL-Library.Sublist" "HOL-Library.AList"
begin

section \<open>Python strings\<close>

text \<open>
  A Python \<open>str\<close> is modelled as a \<open>string\<close> (a list of 8-bit characters, the UTF-8
  form of the text). \<open>lower\<close> is \<open>str.lower\<close> on the ASCII range: the letters
  \<open>A\<close>..\<open>Z\<close> are mapped to \<open>a\<close>..\<open>z\<close>, every other character is kept. The router
  uses it: all its keys and keywords are ASCII. Where the retrieval engine lowercases
  names that come from the store, \<open>str.lower\<close> is a parameter.
\<close>

definition lower_char :: "char \<Rightarrow> char" where
  "lower_char c =
     (case map_of (zip ''ABCDEFGHIJKLMNOPQRSTUVWXYZ'' ''abcdefghijklmnopqrstuvwxyz'') c of
        Some d \<Rightarrow> d
      | None \<Rightarrow> c)"

definition lower :: "string \<Rightarrow> string" where
  "lower s = map lower_char s"

text \<open>\<open>str_in p s\<close> is Python's \<open>p in s\<close> on strings: \<open>p\<close> occurs in \<open>s\<close> as a
  contiguous run of characters.\<close>

primrec str_in :: "string \<Rightarrow> string \<Rightarrow> bool" where
  "str_in p [] = (p = [])"
| "str_in p (c # cs) = (prefix p (c # cs) \<or> str_in p cs)"

section \<open>Router (unified\_text2sql\_streamlit.py)\<close>

text \<open>\<open>PATTERN_QUERIES\<close>: the ordered dictionary from lowercase substring to SQL template.\<close>

definition PATTERN_QUERIES :: "(string \<times> string) list" where
  "PATTERN_QUERIES = [
  (''how many customers'',
      ''SELECT COUNT(*) as customer_count FROM Customer''),
  (''total customers'',
      ''SELECT COUNT(*) as customer_count FROM Customer''),
  (''how many products'',
      ''SELECT COUNT(*) as product_count FROM Product''),
  (''total products'',
      ''SELECT COUNT(*) as product_count FROM Product''),
  (''how many orders'',
      ''SELECT COUNT(*) as order_count FROM SalesOrderHeader''),
  (''total orders'',
      ''SELECT COUNT(*) as order_count FROM SalesOrderHeader''),
  (''total sales'',
      ''SELECT SUM(TotalDue) as total_sales FROM SalesOrderHeader''),
  (''average order'',
      ''SELECT AVG(TotalDue) as average_order_value FROM SalesOrderHeader''),
  (''top customers'',
      ''SELECT c.FirstName || ' ' || c.LastName as CustomerName, SUM(s.TotalDue) as TotalSales'' @ [CHR 0x0A] @
      ''                       FROM Customer c'' @ [CHR 0x0A] @
      ''                       JOIN SalesOrderHeader s ON c.CustomerID = s.CustomerID'' @ [CHR 0x0A] @
      ''                       GROUP BY c.CustomerID, CustomerName'' @ [CHR 0x0A] @
      ''                       ORDER BY TotalSales DESC LIMIT 10''),
  (''top products'',
      ''SELECT p.Name, COUNT(sod.SalesOrderDetailID) as TimesSold, SUM(sod.LineTotal) as TotalRevenue'' @ [CHR 0x0A] @
      ''                      FROM Product p'' @ [CHR 0x0A] @
      ''                      JOIN SalesOrderDetail sod ON p.ProductID = sod.ProductID'' @ [CHR 0x0A] @
      ''                      GROUP BY p.ProductID, p.Name'' @ [CHR 0x0A] @
      ''                      ORDER BY TotalRevenue DESC LIMIT 10''),
  (''product categories'',
      ''SELECT pc.Name as Category, COUNT(p.ProductID) as ProductCount'' @ [CHR 0x0A] @
      ''                            FROM ProductCategory pc'' @ [CHR 0x0A] @
      ''                            LEFT JOIN Product p ON pc.ProductCategoryID = p.ProductCategoryID'' @ [CHR 0x0A] @
      ''                            GROUP BY pc.ProductCategoryID, pc.Name'' @ [CHR 0x0A] @
      ''                            ORDER BY ProductCount DESC''),
  (''recent orders'',
      ''SELECT SalesOrderID, OrderDate, TotalDue, Status'' @ [CHR 0x0A] @
      ''                       FROM SalesOrderHeader'' @ [CHR 0x0A] @
      ''                       ORDER BY OrderDate DESC LIMIT 10'')
  ]"

definition complex_indicators :: "string list" where
  "complex_indicators = [
     ''analysis'',
     ''compare'',
     ''correlation'',
     ''trend'',
     ''comprehensive'',
     ''multi-dimensional'',
     ''progression'',
     ''deteriorating'',
     ''concerning patterns'',
     ''early warning'',
     ''multiple warning signs'']"

text \<open>The \<open>for pattern in PATTERN_QUERIES.keys()\<close> loop of \<open>detect_processing_mode\<close>:
  it returns at the first key that occurs in the lowercased question.\<close>

primrec pattern_loop :: "string list \<Rightarrow> string \<Rightarrow> bool" where
  "pattern_loop [] question_lower = False"
| "pattern_loop (pattern # rest) question_lower =
     (if str_in pattern question_lower then True else pattern_loop rest question_lower)"

definition detect_processing_mode :: "string \<Rightarrow> string" where
  "detect_processing_mode question =
     (let question_lower = lower question in
      if pattern_loop (map fst PATTERN_QUERIES) question_lower then ''Pattern Match''
      else if list_ex (\<lambda>indicator. str_in indicator question_lower) complex_indicators
        then ''AutoGen Multi-Agent''
      else ''AI-Powered'')"

text \<open>
  Values held in result rows and in retrieval metadata: Python's \<open>None\<close>, booleans,
  numbers, strings and lists of strings.
\<close>

datatype pyval = PNone | PBool bool | PNum real | PStr string | PList "string list"

type_synonym row = "(string \<times> pyval) list"

text \<open>
  The result dictionary that every strategy returns. A key the dictionary does not hold is
  \<open>None\<close> (or the empty list), which is what \<open>response.get(key)\<close> gives.
\<close>

record response =
  method_name :: string
  success :: bool
  sql_query :: "string option"
  results :: "row list option"
  error :: "string option"
  explanation :: "string option"
  response_type :: "string option"
  answer :: "string option"
  clarification_questions :: "string list"
  user_choices :: "string list"
  follow_up_suggestions :: "string list"
  sources :: "(string \<times> row list) list"
  processing_time :: "real option"
  question_text :: "string option"

definition new_response :: "string \<Rightarrow> bool \<Rightarrow> response" where
  "new_response m ok =
     \<lparr>method_name = m, success = ok, sql_query = None, results = None, error = None,
      explanation = None, response_type = None, answer = None,
      clarification_questions = [], user_choices = [], follow_up_suggestions = [],
      sources = [], processing_time = None, question_text = None\<rparr>"

text \<open>
  \<open>process_pattern_match\<close>. \<open>query_execution\<close> is the SQL connector: \<open>Inl msg\<close> is an
  exception whose \<open>str\<close> is \<open>msg\<close>. The result \<open>None\<close> is the no-match sentinel.
\<close>

primrec pattern_match_loop ::
  "(string \<times> string) list \<Rightarrow> string \<Rightarrow> (string \<Rightarrow> string + row list) \<Rightarrow> response option"
where
  "pattern_match_loop [] question_lower query_execution = None"
| "pattern_match_loop (item # rest) question_lower query_execution =
     (if str_in (fst item) question_lower then
        (case query_execution (snd item) of
           Inr result \<Rightarrow>
             Some ((new_response ''Pattern Match'' True)
               \<lparr>sql_query := Some (snd item), results := Some result,
                explanation :=
                  Some (''Matched pattern '' @ [CHR 0x27] @ fst item @ [CHR 0x27])\<rparr>)
         | Inl e \<Rightarrow>
             Some ((new_response ''Pattern Match'' False)
               \<lparr>sql_query := Some (snd item), results := None, error := Some e\<rparr>))
      else pattern_match_loop rest question_lower query_execution)"

definition process_pattern_match ::
  "string \<Rightarrow> (string \<Rightarrow> string + row list) \<Rightarrow> response option" where
  "process_pattern_match question query_execution =
     pattern_match_loop PATTERN_QUERIES (lower question) query_execution"

subsection \<open>Multi-agent strategy\<close>

text \<open>
  The payload classes are read by \<open>hasattr\<close>/\<open>getattr\<close> only, so a payload is a record
  whose optional fields are the attributes the code asks for: \<open>None\<close> is a missing
  attribute. \<open>payload_type\<close> holds \<open>payload_type.value\<close>, \<open>payload_str\<close> is \<open>str(payload)\<close>.
\<close>

record source =
  source_sql_query :: "string option"
  source_sql_rows :: "row list option"

record disambiguation_request =
  assistant_question :: "string option"
  request_user_choices :: "string list option"

record payload_body =
  disambiguation_requests :: "disambiguation_request list option"
  body_sources :: "source list option"
  body_follow_up_suggestions :: "string list option"
  body_answer :: "string option"

record payload =
  payload_type :: "string option"
  body :: "payload_body option"
  payload_answer :: "string option"
  payload_str :: string

text \<open>An item of the asynchronous stream: a payload, or an exception raised by the
  generator.\<close>

datatype stream_item = Yield payload | Raise string

text \<open>The \<open>async for\<close> loop: the first payload that has a \<open>payload_type\<close> other than
  \<open>processing_update\<close> is kept and the loop is left.\<close>

fun consume_stream :: "stream_item list \<Rightarrow> string + payload option" where
  "consume_stream [] = Inr None"
| "consume_stream (Raise e # rest) = Inl e"
| "consume_stream (Yield response_payload # rest) =
     (if payload_type response_payload \<noteq> None
         \<and> payload_type response_payload \<noteq> Some ''processing_update''
      then Inr (Some response_payload)
      else consume_stream rest)"

text \<open>The loop over the disambiguation requests.\<close>

primrec collect_requests ::
  "disambiguation_request list \<Rightarrow> string list \<times> string list \<Rightarrow> string list \<times> string list"
where
  "collect_requests [] acc = acc"
| "collect_requests (req # rest) acc =
     (let qs = (case assistant_question req of
                  Some q \<Rightarrow> if q \<noteq> [] then fst acc @ [q] else fst acc
                | None \<Rightarrow> fst acc);
          cs = (case request_user_choices req of
                  Some c \<Rightarrow> if c \<noteq> [] then snd acc @ c else snd acc
                | None \<Rightarrow> snd acc)
      in collect_requests rest (qs, cs))"

text \<open>The loop over the sources: the last source that has the attribute wins.\<close>

primrec scan_sources ::
  "source list \<Rightarrow> string option \<times> row list \<Rightarrow> string option \<times> row list" where
  "scan_sources [] acc = acc"
| "scan_sources (s # rest) acc =
     (let q = (case source_sql_query s of Some v \<Rightarrow> Some v | None \<Rightarrow> fst acc);
          r = (case source_sql_rows s of Some v \<Rightarrow> v | None \<Rightarrow> snd acc)
      in scan_sources rest (q, r))"

text \<open>The comprehension \<open>[{"sql_query": s.sql_query, "sql_rows": s.sql_rows} for s in
  sources]\<close>: reading a missing attribute raises \<open>AttributeError\<close>.\<close>

primrec source_dicts :: "source list \<Rightarrow> string + (string \<times> row list) list" where
  "source_dicts [] = Inr []"
| "source_dicts (s # rest) =
     (case (source_sql_query s, source_sql_rows s) of
        (Some q, Some r) \<Rightarrow>
          (case source_dicts rest of Inl e \<Rightarrow> Inl e | Inr ds \<Rightarrow> Inr ((q, r) # ds))
      | _ \<Rightarrow> Inl ''AttributeError'')"

definition autogen_failure :: "string \<Rightarrow> response" where
  "autogen_failure e =
     (new_response ''AutoGen Multi-Agent'' False)
       \<lparr>error := Some (''AutoGen processing failed: '' @ e)\<rparr>"

text \<open>The part of \<open>run_autogen\<close> after the loop, for the payload that was kept.\<close>

definition parse_response :: "payload \<Rightarrow> response" where
  "parse_response response_data =
     (let response_type_v = (case payload_type response_data of Some v \<Rightarrow> v | None \<Rightarrow> ''unknown'') in
      if response_type_v = ''disambiguation_requests'' then
        (case body response_data of
           None \<Rightarrow> autogen_failure ''AttributeError''
         | Some b \<Rightarrow>
             (let reqs = (case disambiguation_requests b of Some r \<Rightarrow> r | None \<Rightarrow> []);
                  qc = collect_requests reqs ([], [])
              in (new_response ''AutoGen Multi-Agent'' True)
                   \<lparr>response_type := Some ''disambiguation'',
                    clarification_questions := fst qc,
                    user_choices := snd qc,
                    explanation :=
                      Some ''AutoGen is requesting clarification to provide better analysis''\<rparr>))
      else if response_type_v = ''answer_with_sources'' \<or> body response_data \<noteq> None then
        (case body response_data of
           None \<Rightarrow> autogen_failure ''AttributeError''
         | Some b \<Rightarrow>
             (let srcs = (case body_sources b of Some s \<Rightarrow> s | None \<Rightarrow> []);
                  qr = scan_sources srcs (None, []);
                  follow_up = (case body_follow_up_suggestions b of Some f \<Rightarrow> f | None \<Rightarrow> []);
                  answer_v =
                    (case payload_answer response_data of
                       Some a \<Rightarrow>
                         if a \<noteq> [] then a
                         else (case body_answer b of Some a' \<Rightarrow> a'
                               | None \<Rightarrow> ''Analysis completed successfully'')
                     | None \<Rightarrow>
                         (case body_answer b of Some a' \<Rightarrow> a'
                          | None \<Rightarrow> ''Analysis completed successfully''))
              in (case source_dicts srcs of
                    Inl e \<Rightarrow> autogen_failure e
                  | Inr ds \<Rightarrow>
                      (new_response ''AutoGen Multi-Agent'' True)
                        \<lparr>response_type := Some ''answer'',
                         answer := Some answer_v,
                         sql_query := fst qr,
                         results := Some (snd qr),
                         follow_up_suggestions := follow_up,
                         sources := ds,
                         explanation := Some ''AutoGen multi-agent processing completed''\<rparr>)))
      else
        (new_response ''AutoGen Multi-Agent'' True)
          \<lparr>response_type := Some ''unknown'',
           answer := Some (payload_str response_data),
           sql_query := None,
           results := None,
           explanation :=
             Some (''AutoGen processing completed (type: '' @ response_type_v @ '')'')\<rparr>)"

text \<open>
  \<open>process_autogen_sync\<close> runs \<open>run_autogen\<close> to completion on a fresh event loop.
  \<open>autogen\<close> is the freshly created system: \<open>Inl e\<close> when its import or construction
  raises, otherwise the stream that \<open>process_user_message\<close> produces for the question.
\<close>

definition process_autogen_sync ::
  "(string + (string \<Rightarrow> stream_item list)) \<Rightarrow> string \<Rightarrow> response" where
  "process_autogen_sync autogen question =
     (case autogen of
        Inl e \<Rightarrow> autogen_failure e
      | Inr process_user_message \<Rightarrow>
          (case consume_stream (process_user_message question) of
             Inl e \<Rightarrow> autogen_failure e
           | Inr None \<Rightarrow>
               (new_response ''AutoGen Multi-Agent'' False)
                 \<lparr>error := Some ''No response received from AutoGen system''\<rparr>
           | Inr (Some response_data) \<Rightarrow> parse_response response_data))"

text \<open>
  \<open>process_autogen\<close> runs \<open>process_autogen_sync\<close> on a worker thread and waits for it with
  a timeout of 120 seconds. Real time is not modelled: \<open>future_error\<close> is the exception
  that \<open>future.result\<close> raises, if any.
\<close>

definition process_autogen ::
  "(string + (string \<Rightarrow> stream_item list)) \<Rightarrow> string option \<Rightarrow> string \<Rightarrow> response" where
  "process_autogen autogen future_error question =
     (case future_error of
        Some e \<Rightarrow> (new_response ''AutoGen Multi-Agent'' False)\<lparr>error := Some e\<rparr>
      | None \<Rightarrow> process_autogen_sync autogen question)"

subsection \<open>Dispatch\<close>

text \<open>
  The initialised systems. The Direct Generation strategy (\<open>process_ai_powered\<close> with its
  client, provider and schema) is a parameter: \<open>llm_client\<close> is \<open>None\<close> when no client
  could be initialised. \<open>autogen_system\<close> says whether the multi-agent system was
  initialised.
\<close>

record systems =
  db_connector :: "string \<Rightarrow> string + row list"
  llm_client :: "(string \<Rightarrow> response) option"
  autogen_system :: bool

text \<open>\<open>unified_query_processor\<close>; \<open>elapsed\<close> is the time read off the clock when the
  strategy has returned.\<close>

definition unified_query_processor ::
  "string \<Rightarrow> real \<Rightarrow> (string + (string \<Rightarrow> stream_item list)) \<Rightarrow> string option \<Rightarrow>
   string \<Rightarrow> systems \<Rightarrow> response" where
  "unified_query_processor processing_mode elapsed autogen future_error question sys =
     (let mode = (if processing_mode = ''Smart Auto'' then detect_processing_mode question
                  else processing_mode);
          pattern_result =
            (if mode \<in> set [''Smart Auto'', ''Pattern Match'']
             then process_pattern_match question (db_connector sys) else None)
      in case pattern_result of
           Some r \<Rightarrow> r\<lparr>processing_time := Some elapsed\<rparr>
         | None \<Rightarrow>
             if mode \<in> set [''Smart Auto'', ''AI-Powered''] \<and> llm_client sys \<noteq> None
             then (the (llm_client sys) question)\<lparr>processing_time := Some elapsed\<rparr>
             else if mode = ''AutoGen Multi-Agent'' \<and> autogen_system sys
             then (process_autogen autogen future_error question)
                    \<lparr>processing_time := Some elapsed\<rparr>
             else (new_response ''Fallback'' False)
                    \<lparr>error := Some (''No suitable processing method available for mode: ''
                                     @ mode)\<rparr>)"

section \<open>Experiment ledger (mlflow\_tracking.py)\<close>

text \<open>
  The tracking store is a list of runs. Each call of the tracking API can raise; which
  calls the store accepts is the parameter \<open>accepts\<close>. \<open>new_run_id\<close> is the identifier the
  store gives to a new run, \<open>now\<close> and \<open>uuid4\<close> are the clock and the random identifier.
\<close>

datatype mlflow_call =
    StartRun
  | LogParam string string
  | LogMetric string real
  | LogArtifact string

record run =
  info_run_id :: string
  params :: "(string \<times> string) list"
  metrics :: "(string \<times> real) list"
  artifacts :: "string list"

record tracking =
  accepts :: "mlflow_call \<Rightarrow> bool"
  new_run_id :: "run list \<Rightarrow> string"
  now :: string
  uuid4 :: string

fun apply_call :: "mlflow_call \<Rightarrow> run \<Rightarrow> run" where
  "apply_call StartRun r = r"
| "apply_call (LogParam k v) r = r\<lparr>params := params r @ [(k, v)]\<rparr>"
| "apply_call (LogMetric k v) r = r\<lparr>metrics := metrics r @ [(k, v)]\<rparr>"
| "apply_call (LogArtifact f) r = r\<lparr>artifacts := artifacts r @ [f]\<rparr>"

text \<open>The body of the \<open>with mlflow.start_run()\<close> block: the calls are made in order and
  the first one that raises ends the block.\<close>

primrec run_calls :: "(mlflow_call \<Rightarrow> bool) \<Rightarrow> mlflow_call list \<Rightarrow> run \<Rightarrow> run" where
  "run_calls ok [] r = r"
| "run_calls ok (c # cs) r = (if ok c then run_calls ok cs (apply_call c r) else r)"

text \<open>The calls that \<open>log_query_experiment\<close> makes inside the block. Writing the JSON
  file, logging it as an artifact and removing it is the one call \<open>LogArtifact\<close>.\<close>

definition experiment_calls ::
  "tracking \<Rightarrow> string \<Rightarrow> string \<Rightarrow> string \<Rightarrow> response \<Rightarrow> real \<Rightarrow> string option \<Rightarrow>
   mlflow_call list" where
  "experiment_calls tr run_id question approach result execution_time session_id =
     [LogParam ''question'' question,
      LogParam ''approach'' approach,
      LogParam ''session_id''
        (case session_id of Some s \<Rightarrow> if s \<noteq> [] then s else uuid4 tr | None \<Rightarrow> uuid4 tr),
      LogParam ''timestamp'' (now tr),
      LogMetric ''execution_time_seconds'' execution_time,
      LogMetric ''success'' (if success result then 1 else 0)]
     @ (case sql_query result of
          Some q \<Rightarrow> if q \<noteq> [] then [LogParam ''sql_query'' q] else []
        | None \<Rightarrow> [])
     @ [LogMetric ''result_count''
          (case results result of
             Some rows \<Rightarrow> if rows \<noteq> [] then real (length rows) else 0
           | None \<Rightarrow> 0)]
     @ (if approach = ''Pattern Match'' then [LogMetric ''pattern_match_used'' 1]
        else if approach = ''AI-Powered'' then [LogMetric ''ai_powered_used'' 1]
        else if approach = ''AutoGen Multi-Agent'' then [LogMetric ''autogen_used'' 1]
        else [])
     @ (case error result of
          Some e \<Rightarrow> if \<not> success result \<and> e \<noteq> [] then [LogParam ''error_message'' e] else []
        | None \<Rightarrow> [])
     @ [LogArtifact (''query_result_'' @ run_id @ ''.json'')]"

text \<open>The calls that are made when a list of calls is run: each call in order, up to and
  including the first one that raises.\<close>

primrec calls_made :: "(mlflow_call \<Rightarrow> bool) \<Rightarrow> mlflow_call list \<Rightarrow> mlflow_call list" where
  "calls_made ok [] = []"
| "calls_made ok (c # cs) = c # (if ok c then calls_made ok cs else [])"

text \<open>\<open>log_query_experiment\<close> returns the run identifier (\<open>None\<close> when \<open>start_run\<close>
  raised); its effects are the store and the calls it has made to the tracking API.
  Every exception is caught and logged.\<close>

definition log_query_experiment ::
  "tracking \<Rightarrow> run list \<Rightarrow> string \<Rightarrow> string \<Rightarrow> response \<Rightarrow> real \<Rightarrow> string option \<Rightarrow>
   string option \<times> run list \<times> mlflow_call list" where
  "log_query_experiment tr store question approach result execution_time session_id =
     (if \<not> accepts tr StartRun then (None, store, [StartRun])
      else
        (let run_id = new_run_id tr store;
             r = \<lparr>info_run_id = run_id, params = [], metrics = [], artifacts = []\<rparr>;
             calls = experiment_calls tr run_id question approach result execution_time
                       session_id
         in (Some run_id, store @ [run_calls (accepts tr) calls r],
             StartRun # calls_made (accepts tr) calls)))"

text \<open>The Streamlit session state that \<open>display_unified_results\<close> reads and writes; the
  tracker's store is part of it.\<close>

record session_state =
  state_session_id :: string
  current_run_id :: "string option"
  mlflow_store :: "run list"

text \<open>What \<open>display_unified_results\<close> puts on the page: the error, the clarification
  request, or the answer with its rows.\<close>

datatype shown =
    ShownError string
  | ShownDisambiguation "string list" "string list"
  | ShownResult "string option" "string option" "row list option"

text \<open>What \<open>display_unified_results\<close> does, in the order in which it does it: calls to the
  tracking API and output to the page.\<close>

datatype effect = Tracking mlflow_call | Display shown

definition display_unified_results ::
  "tracking \<Rightarrow> session_state \<Rightarrow> response \<Rightarrow> session_state \<times> effect list" where
  "display_unified_results tr st response =
     (let question = (case question_text response of Some q \<Rightarrow> q | None \<Rightarrow> []);
          method_v = method_name response;
          processing_time_v = (case processing_time response of Some t \<Rightarrow> t | None \<Rightarrow> 0);
          logged = log_query_experiment tr (mlflow_store st) question method_v response
                     processing_time_v (Some (state_session_id st));
          st' = st\<lparr>mlflow_store := fst (snd logged), current_run_id := fst logged\<rparr>;
          tracked = map Tracking (snd (snd logged))
      in if \<not> success response then
           (st', tracked @ [Display (ShownError (method_v @ '' failed: ''
                   @ (case error response of Some e \<Rightarrow> e | None \<Rightarrow> ''Unknown error'')))])
         else if response_type response = Some ''disambiguation'' then
           (st', tracked @ [Display (ShownDisambiguation (clarification_questions response)
                              (user_choices response))])
         else
           (st', tracked @ [Display (ShownResult (answer response) (sql_query response)
                              (results response))]))"

section \<open>Retrieval engine (chroma\_search.py)\<close>

subsection \<open>More Python string operations\<close>

text \<open>\<open>sep.join(xs)\<close>.\<close>

fun str_join :: "string \<Rightarrow> string list \<Rightarrow> string" where
  "str_join sep [] = []"
| "str_join sep [x] = x"
| "str_join sep (x # y # rest) = x @ sep @ str_join sep (y # rest)"

text \<open>\<open>s.replace(old, new)\<close> for a non-empty \<open>old\<close>: the string is scanned from the left
  and every occurrence found is replaced; the scan goes on behind the occurrence.\<close>

function replace_scan :: "string \<Rightarrow> string \<Rightarrow> string \<Rightarrow> string" where
  "replace_scan old new s =
     (if old = [] \<or> s = [] then s
      else if prefix old s then new @ replace_scan old new (drop (length old) s)
      else hd s # replace_scan old new (tl s))"
  by pat_completeness auto
termination
  by (relation "measure (\<lambda>(old, new, s). length s)") auto

declare replace_scan.simps [simp del]

text \<open>\<open>s.replace(old, new)\<close>: with an empty \<open>old\<close>, \<open>new\<close> is put before every character
  and at the end.\<close>

definition str_replace :: "string \<Rightarrow> string \<Rightarrow> string \<Rightarrow> string" where
  "str_replace s old new =
     (if old = [] then new @ concat (map (\<lambda>c. c # new) s) else replace_scan old new s)"

text \<open>
  \<open>base64.urlsafe_b64encode\<close> on the bytes of a string (\<open>str.encode\<close> and \<open>bytes.decode\<close>
  are the identity on lists of 8-bit characters): three bytes give four symbols of the
  URL-safe alphabet, and the last group is padded with \<open>=\<close>.
\<close>

definition b64_alphabet :: string where
  "b64_alphabet = ''ABCDEFGHIJKLMNOPQRSTUVWXYZabcdefghijklmnopqrstuvwxyz0123456789-_''"

definition b64_sym :: "nat \<Rightarrow> char" where
  "b64_sym n = b64_alphabet ! (n mod 64)"

fun urlsafe_b64encode :: "string \<Rightarrow> string" where
  "urlsafe_b64encode [] = []"
| "urlsafe_b64encode [a] =
     (let x = (of_char a :: nat)
      in [b64_sym (x div 4), b64_sym ((x mod 4) * 16), CHR ''='', CHR ''=''])"
| "urlsafe_b64encode [a, b] =
     (let x = (of_char a :: nat); y = (of_char b :: nat)
      in [b64_sym (x div 4), b64_sym ((x mod 4) * 16 + y div 16),
          b64_sym ((y mod 16) * 4), CHR ''=''])"
| "urlsafe_b64encode (a # b # c # rest) =
     (let x = (of_char a :: nat); y = (of_char b :: nat); z = (of_char c :: nat)
      in [b64_sym (x div 4), b64_sym ((x mod 4) * 16 + y div 16),
          b64_sym ((y mod 16) * 4 + z div 64), b64_sym (z mod 64)]
         @ urlsafe_b64encode rest)"

subsection \<open>The vector store\<close>

datatype py_error = IndexError | KeyError | TypeError | AttributeError | ProviderError string

type_synonym metadata = "(string \<times> pyval) list"

type_synonym embedding = "real list"

text \<open>What \<open>collection.query\<close> returns for the one query it is given.\<close>

record query_result =
  metadatas :: "metadata list list option"
  distances :: "real list list option"

text \<open>An entry of a collection: what one \<open>upsert\<close> stores under an identifier.\<close>

record stored_entry =
  entry_embedding :: embedding
  entry_metadata :: metadata
  entry_document :: pyval

text \<open>A collection maps document identifiers to entries; the store maps collection names
  to collections, and a name not used so far has the empty collection.\<close>

type_synonym collection = "(string \<times> stored_entry) list"

text \<open>
  The connector's collaborators: the process environment, the embedding provider
  (\<open>Inl msg\<close> is an exception) and the nearest-neighbour queries of the store, by
  collection name, with the number of results asked for. Two calls made by
  \<open>add_entry_to_index\<close> can raise as well: \<open>encodable\<close> says whether \<open>str.encode\<close> returns
  for a text, and \<open>upsert_accepted\<close> whether \<open>collection.upsert\<close> returns for a collection
  name, an identifier and an entry (the store rejects an empty identifier, for one).
  The client hands out a collection for every name.
\<close>

record connector =
  environ :: "string \<Rightarrow> string option"
  run_embedding_request :: "pyval list \<Rightarrow> string + embedding list"
  query_embeddings :: "string \<Rightarrow> embedding \<Rightarrow> nat \<Rightarrow> query_result"
  query_texts :: "string \<Rightarrow> string \<Rightarrow> nat \<Rightarrow> query_result"
  encodable :: "string \<Rightarrow> bool"
  upsert_accepted :: "string \<Rightarrow> string \<Rightarrow> stored_entry \<Rightarrow> bool"

text \<open>\<open>score = 1 - results['distances'][0][i] if results['distances'] else 1.0\<close>\<close>

definition score_at :: "real list list option \<Rightarrow> nat \<Rightarrow> py_error + real" where
  "score_at dists i =
     (case dists of
        None \<Rightarrow> Inr 1
      | Some [] \<Rightarrow> Inr 1
      | Some (d0 # _) \<Rightarrow> if i < length d0 then Inr (1 - d0 ! i) else Inl IndexError)"

text \<open>The loop over \<open>enumerate(results['metadatas'][0])\<close>, from index \<open>i\<close> on.\<close>

fun result_loop ::
  "nat \<Rightarrow> metadata list \<Rightarrow> real list list option \<Rightarrow> bool \<Rightarrow> real option \<Rightarrow>
   py_error + metadata list" where
  "result_loop i [] dists include_scores minimum_score = Inr []"
| "result_loop i (metadata # rest) dists include_scores minimum_score =
     (case score_at dists i of
        Inl e \<Rightarrow> Inl e
      | Inr score \<Rightarrow>
          if minimum_score \<noteq> None \<and> score < the minimum_score / 4.0
          then result_loop (Suc i) rest dists include_scores minimum_score
          else
            (let result_item =
                   (if include_scores
                    then AList.update ''@search.score'' (PNum score) metadata
                    else metadata)
             in case result_loop (Suc i) rest dists include_scores minimum_score of
                  Inl e \<Rightarrow> Inl e
                | Inr combined_results \<Rightarrow> Inr (result_item # combined_results)))"

text \<open>The first half of \<open>run_ai_search_query\<close>: the query is embedded when vector fields
  are given, and the collection is queried by embedding or by text.\<close>

definition collection_query ::
  "connector \<Rightarrow> string \<Rightarrow> string list \<Rightarrow> string \<Rightarrow> nat \<Rightarrow> py_error + query_result" where
  "collection_query conn query vector_fields index_name top_n =
     (if length vector_fields > 0 then
        (case run_embedding_request conn [PStr query] of
           Inl e \<Rightarrow> Inl (ProviderError e)
         | Inr [] \<Rightarrow> Inl IndexError
         | Inr (query_embedding # _) \<Rightarrow>
             Inr (query_embeddings conn index_name query_embedding top_n))
      else Inr (query_texts conn index_name query top_n))"

definition run_ai_search_query ::
  "connector \<Rightarrow> string \<Rightarrow> string list \<Rightarrow> string list \<Rightarrow> string \<Rightarrow> string option \<Rightarrow> nat \<Rightarrow>
   bool \<Rightarrow> real option \<Rightarrow> py_error + metadata list" where
  "run_ai_search_query conn query vector_fields retrieval_fields index_name semantic_config
     top_n include_scores minimum_score =
     (case collection_query conn query vector_fields index_name top_n of
        Inl e \<Rightarrow> Inl e
      | Inr results_v \<Rightarrow>
          (case metadatas results_v of
             Some (m0 # _) \<Rightarrow>
               if length m0 > 0
               then result_loop 0 m0 (distances results_v) include_scores minimum_score
               else Inr []
           | _ \<Rightarrow> Inr []))"

definition get_column_values :: "connector \<Rightarrow> string \<Rightarrow> py_error + metadata list" where
  "get_column_values conn text_v =
     (let index_name =
            (case environ conn ''CHROMA_TEXT2SQL_COLUMN_VALUE_STORE'' of
               Some v \<Rightarrow> v
             | None \<Rightarrow> ''text2sql-column-value-store'')
      in run_ai_search_query conn text_v [] [''FQN'', ''Column'', ''Value''] index_name None
           50 False (Some 5))"

subsection \<open>Post-processing of entity schemas\<close>

text \<open>\<open>len(v)\<close>: only strings and lists have a length.\<close>

fun py_len :: "pyval \<Rightarrow> py_error + nat" where
  "py_len (PStr s) = Inr (length s)"
| "py_len (PList xs) = Inr (length xs)"
| "py_len v = Inl TypeError"

text \<open>The \<open>CompleteEntityRelationshipsGraph\<close> step: an empty value is deleted, a non-empty
  one is mapped with \<open>x.replace(fqn_to_trim, "")\<close>. Mapping over a string visits its
  characters.\<close>

definition trim_graph :: "string \<Rightarrow> metadata \<Rightarrow> py_error + metadata" where
  "trim_graph fqn_to_trim schema =
     (case map_of schema ''CompleteEntityRelationshipsGraph'' of
        None \<Rightarrow> Inr schema
      | Some PNone \<Rightarrow> Inr schema
      | Some v \<Rightarrow>
          (case py_len v of
             Inl e \<Rightarrow> Inl e
           | Inr n \<Rightarrow>
               if n = 0 then Inr (AList.delete ''CompleteEntityRelationshipsGraph'' schema)
               else
                 (case v of
                    PList xs \<Rightarrow>
                      Inr (AList.update ''CompleteEntityRelationshipsGraph''
                             (PList (map (\<lambda>x. str_replace x fqn_to_trim []) xs)) schema)
                  | PStr s \<Rightarrow>
                      Inr (AList.update ''CompleteEntityRelationshipsGraph''
                             (PList (map (\<lambda>c. str_replace [c] fqn_to_trim []) s)) schema)
                  | _ \<Rightarrow> Inl TypeError)))"

text \<open>The steps for \<open>SampleValues\<close> and \<open>EntityRelationships\<close>: a value that is present
  and empty is deleted.\<close>

definition delete_if_empty :: "string \<Rightarrow> metadata \<Rightarrow> py_error + metadata" where
  "delete_if_empty key schema =
     (case map_of schema key of
        None \<Rightarrow> Inr schema
      | Some PNone \<Rightarrow> Inr schema
      | Some v \<Rightarrow>
          (case py_len v of
             Inl e \<Rightarrow> Inl e
           | Inr n \<Rightarrow> if n = 0 then Inr (AList.delete key schema) else Inr schema))"

text \<open>\<open>schema.get("Entity", "").lower()\<close>. Entity names come from the store and need
  not be ASCII, so \<open>str.lower\<close>, which maps every cased Unicode letter, is the parameter
  \<open>py_lower\<close> here.\<close>

definition entity_lower :: "(string \<Rightarrow> string) \<Rightarrow> metadata \<Rightarrow> py_error + string" where
  "entity_lower py_lower schema =
     (case map_of schema ''Entity'' of
        None \<Rightarrow> Inr (py_lower [])
      | Some (PStr s) \<Rightarrow> Inr (py_lower s)
      | Some _ \<Rightarrow> Inl AttributeError)"

text \<open>The body of the loop over the schemas, up to the test on the entity name.\<close>

definition process_schema :: "string \<Rightarrow> metadata \<Rightarrow> py_error + metadata" where
  "process_schema fqn_to_trim schema =
     (let s1 = (if ''FQN'' \<in> set (map fst schema) then AList.delete ''FQN'' schema else schema)
      in case trim_graph fqn_to_trim s1 of
           Inl e \<Rightarrow> Inl e
         | Inr s2 \<Rightarrow>
             (case delete_if_empty ''SampleValues'' s2 of
                Inl e \<Rightarrow> Inl e
              | Inr s3 \<Rightarrow> delete_if_empty ''EntityRelationships'' s3))"

primrec filter_schemas ::
  "(string \<Rightarrow> string) \<Rightarrow> string \<Rightarrow> string list \<Rightarrow> metadata list \<Rightarrow>
   py_error + metadata list" where
  "filter_schemas py_lower fqn_to_trim excluded_entities [] = Inr []"
| "filter_schemas py_lower fqn_to_trim excluded_entities (schema # rest) =
     (case process_schema fqn_to_trim schema of
        Inl e \<Rightarrow> Inl e
      | Inr schema' \<Rightarrow>
          (case entity_lower py_lower schema' of
             Inl e \<Rightarrow> Inl e
           | Inr name \<Rightarrow>
               (case filter_schemas py_lower fqn_to_trim excluded_entities rest of
                  Inl e \<Rightarrow> Inl e
                | Inr filtered_schemas \<Rightarrow>
                    Inr (if name \<notin> set excluded_entities then schema' # filtered_schemas
                         else filtered_schemas))))"

text \<open>\<open>get_entity_schemas\<close>. The enumeration \<open>DatabaseEngineSpecificFields\<close> is not part of
  the sources at hand: \<open>str_field\<close> is its \<open>str\<close>.\<close>

definition get_entity_schemas ::
  "(string \<Rightarrow> string) \<Rightarrow> ('f \<Rightarrow> string) \<Rightarrow> connector \<Rightarrow> string \<Rightarrow> string list \<Rightarrow> 'f list \<Rightarrow>
   py_error + metadata list" where
  "get_entity_schemas py_lower str_field conn text_v excluded_entities engine_specific_fields =
     (let stringified_engine_specific_fields = map str_field engine_specific_fields;
          retrieval_fields =
            [''FQN'', ''Entity'', ''EntityName'', ''Schema'', ''Definition'', ''Columns'',
             ''EntityRelationships'', ''CompleteEntityRelationshipsGraph'']
            @ stringified_engine_specific_fields;
          index_name =
            (case environ conn ''CHROMA_TEXT2SQL_SCHEMA_STORE'' of
               Some v \<Rightarrow> v
             | None \<Rightarrow> ''text2sql-schema-store'');
          schemas = run_ai_search_query conn text_v [''DefinitionEmbedding''] retrieval_fields
                      index_name None 3 False (Some 1.5);
          fqn_to_trim = str_join ''.'' stringified_engine_specific_fields
      in case schemas of
           Inl e \<Rightarrow> Inl e
         | Inr found \<Rightarrow>
             if length excluded_entities = 0 then Inr found
             else filter_schemas py_lower fqn_to_trim excluded_entities found)"

subsection \<open>Adding an entry\<close>

text \<open>
  \<open>add_entry_to_index\<close> returns the document, which it stamps in place, and the store.
  \<open>now_v\<close> is \<open>datetime.now(timezone.utc).isoformat()\<close>. Every exception raised after the
  stamp (by the embedding request, by the lookup and the encoding of the question, by
  the missing first embedding, by the store's upsert) is caught and logged.
\<close>

definition add_entry_to_index ::
  "connector \<Rightarrow> string \<Rightarrow> (string \<Rightarrow> collection) \<Rightarrow> metadata \<Rightarrow> (string \<times> string) list \<Rightarrow>
   string \<Rightarrow> metadata \<times> (string \<Rightarrow> collection)" where
  "add_entry_to_index conn now_v store document vector_fields index_name =
     (if \<not> list_all (\<lambda>field. field \<in> set (map fst document)) (map fst vector_fields)
      then (document, store)
      else
        (let fields_to_embed = map (\<lambda>field. the (map_of document field)) (map fst vector_fields);
             document' = AList.update ''DateLastModified'' (PStr now_v) document
         in case run_embedding_request conn fields_to_embed of
              Inl e \<Rightarrow> (document', store)
            | Inr embeddings \<Rightarrow>
                (case map_of document' ''Question'' of
                   Some (PStr q) \<Rightarrow>
                     if \<not> encodable conn q then (document', store)
                     else
                       (let doc_id = urlsafe_b64encode q;
                            metadata =
                              filter (\<lambda>kv. fst kv \<notin> set (map snd vector_fields)) document'
                        in case embeddings of
                             [] \<Rightarrow> (document', store)
                           | embedding # _ \<Rightarrow>
                               (let entry = \<lparr>entry_embedding = embedding,
                                             entry_metadata = metadata,
                                             entry_document = PStr q\<rparr>
                                in if \<not> upsert_accepted conn index_name doc_id entry
                                   then (document', store)
                                   else (document',
                                         store(index_name :=
                                           AList.update doc_id entry (store index_name)))))
                 | _ \<Rightarrow> (document', store))))"

section \<open>Notions used to state the properties\<close>

text \<open>The candidates of a query result with their similarity scores, in the order of the
  store: the score of candidate \<open>i\<close> is one minus its distance, and 1 when the result
  carries no distances.\<close>

definition similarity :: "real list list option \<Rightarrow> nat \<Rightarrow> real" where
  "similarity dists i = (case dists of Some (d0 # _) \<Rightarrow> 1 - d0 ! i | _ \<Rightarrow> 1)"

definition candidate_scores :: "query_result \<Rightarrow> (metadata \<times> real) list" where
  "candidate_scores r =
     (case metadatas r of
        Some (m0 # _) \<Rightarrow> zip m0 (map (similarity (distances r)) [0..<length m0])
      | _ \<Rightarrow> [])"

text \<open>The entry that is returned for a candidate.\<close>

definition result_item :: "bool \<Rightarrow> metadata \<times> real \<Rightarrow> metadata" where
  "result_item include_scores c =
     (if include_scores then AList.update ''@search.score'' (PNum (snd c)) (fst c) else fst c)"

text \<open>A query result of a collection with cosine distance: there is a distance for every
  candidate, and no distance is negative.\<close>

definition cosine_result :: "query_result \<Rightarrow> bool" where
  "cosine_result r =
     (case (metadatas r, distances r) of
        (Some (m0 # _), Some (d0 # _)) \<Rightarrow> length m0 \<le> length d0 \<and> list_all (\<lambda>d. 0 \<le> d) d0
      | _ \<Rightarrow> True)"

text \<open>The metadata that a call stores: the stamped document without the keys that name
  an embedding field.\<close>

definition stored_metadata :: "string \<Rightarrow> metadata \<Rightarrow> (string \<times> string) list \<Rightarrow> metadata" where
  "stored_metadata now_v document vector_fields =
     filter (\<lambda>kv. fst kv \<notin> set (map snd vector_fields))
       (AList.update ''DateLastModified'' (PStr now_v) document)"

text \<open>The upsert of a call of \<open>add_entry_to_index\<close> succeeds when every vector field is a
  key of the document, the document has a string under \<open>Question\<close> that can be encoded,
  the embedding request returns at least one embedding, and the store accepts the
  entry under the identifier.\<close>

definition upsert_succeeds ::
  "connector \<Rightarrow> string \<Rightarrow> metadata \<Rightarrow> (string \<times> string) list \<Rightarrow> string \<Rightarrow> bool" where
  "upsert_succeeds conn now_v document vector_fields index_name =
     (list_all (\<lambda>field. field \<in> set (map fst document)) (map fst vector_fields)
      \<and> (case map_of document ''Question'' of
            Some (PStr q) \<Rightarrow>
              encodable conn q
              \<and> (case run_embedding_request conn
                         (map (\<lambda>field. the (map_of document field)) (map fst vector_fields)) of
                    Inr (e # _) \<Rightarrow>
                      upsert_accepted conn index_name (urlsafe_b64encode q)
                        \<lparr>entry_embedding = e,
                         entry_metadata = stored_metadata now_v document vector_fields,
                         entry_document = PStr q\<rparr>
                  | _ \<Rightarrow> False)
          | _ \<Rightarrow> False))"

section \<open>Example inputs\<close>

text \<open>A stream event of each kind, a tracking store that refuses given calls, and a
  session with one answered question.\<close>

definition example_update :: payload where
  "example_update =
     \<lparr>payload_type = Some ''processing_update'', body = None, payload_answer = None,
      payload_str = ''update''\<rparr>"

definition example_disambiguation_body :: payload_body where
  "example_disambiguation_body =
     \<lparr>disambiguation_requests = Some
        [\<lparr>assistant_question = Some ''Which year?'',
          request_user_choices = Some [''2023'', ''2024'']\<rparr>,
         \<lparr>assistant_question = Some ''Which region?'',
          request_user_choices = Some [''Europe'']\<rparr>],
      body_sources = None, body_follow_up_suggestions = None, body_answer = None\<rparr>"

definition example_disambiguation :: payload where
  "example_disambiguation =
     \<lparr>payload_type = Some ''disambiguation_requests'',
      body = Some example_disambiguation_body, payload_answer = None,
      payload_str = ''disambiguation''\<rparr>"

definition example_tracking :: "mlflow_call list \<Rightarrow> tracking" where
  "example_tracking refused =
     \<lparr>accepts = (\<lambda>c. c \<notin> set refused), new_run_id = (\<lambda>store. ''run-1''),
      now = ''2025-01-01T00:00:00'', uuid4 = ''0000''\<rparr>"

definition example_state :: session_state where
  "example_state = \<lparr>state_session_id = ''session-1'', current_run_id = None, mlflow_store = []\<rparr>"

definition example_response :: response where
  "example_response =
     (new_response ''Pattern Match'' True)
       \<lparr>sql_query := Some ''SELECT COUNT(*) as customer_count FROM Customer'',
        results := Some [[(''customer_count'', PNum 847)]],
        question_text := Some ''How many customers do we have?''\<rparr>"

text \<open>A query result with three candidates, and a connector whose store answers every
  query with a given result and accepts every upsert but one with an empty identifier.\<close>

definition example_hits :: query_result where
  "example_hits =
     \<lparr>metadatas = Some
        [[[(''FQN'', PStr ''db.sales.Order''), (''Entity'', PStr ''Order''),
           (''CompleteEntityRelationshipsGraph'',
              PList [''db.sales.Order -> db.sales.Customer''])],
          [(''FQN'', PStr ''db.sales.Customer''), (''Entity'', PStr ''Customer''),
           (''SampleValues'', PList [])],
          [(''FQN'', PStr ''db.sales.Product''), (''Entity'', PStr ''Product'')]]],
      distances = Some [[0.1, 0.5, 0.9]]\<rparr>"

definition example_connector :: "query_result \<Rightarrow> connector" where
  "example_connector r =
     \<lparr>environ = (\<lambda>name. None),
      run_embedding_request = (\<lambda>texts. Inr (map (\<lambda>t. [0.5, 0.5]) texts)),
      query_embeddings = (\<lambda>name e n. r),
      query_texts = (\<lambda>name q n. r),
      encodable = (\<lambda>q. True),
      upsert_accepted = (\<lambda>name doc_id entry. doc_id \<noteq> [])\<rparr>"

text \<open>An empty store, and question cache documents with one or two vector fields.\<close>

definition empty_store :: "string \<Rightarrow> collection" where
  "empty_store name = []"

definition example_vector_fields :: "(string \<times> string) list" where
  "example_vector_fields = [(''Question'', ''QuestionEmbedding'')]"

definition example_document :: "string \<Rightarrow> metadata" where
  "example_document a = [(''Question'', PStr ''Q1''), (''Answer'', PStr a)]"

definition example_two_vector_fields :: "(string \<times> string) list" where
  "example_two_vector_fields =
     [(''Question'', ''QuestionEmbedding''), (''Schemas'', ''SchemasEmbedding'')]"

definition example_full_document :: metadata where
  "example_full_document =
     [(''Question'', PStr ''Q1''), (''Schemas'', PStr ''S1''), (''Answer'', PStr ''A1'')]"

text \<open>A document with an empty question, and vector fields that name the timestamp key
  as an embedding field.\<close>

definition example_blank_document :: "string \<Rightarrow> metadata" where
  "example_blank_document a = [(''Question'', PStr []), (''Answer'', PStr a)]"

definition example_stamp_vector_fields :: "(string \<times> string) list" where
  "example_stamp_vector_fields = [(''Question'', ''DateLastModified'')]"

text \<open>A query result with one entity whose name is not ASCII (a capital E with an acute
  accent), and a \<open>str.lower\<close> that maps this letter to its small form.\<close>

definition example_accent_hits :: query_result where
  "example_accent_hits =
     \<lparr>metadatas = Some [[[(''FQN'', PStr ''db.x''), (''Entity'', PStr [CHR 0xC3, CHR 0x89])]]],
      distances = Some [[0.1]]\<rparr>"

definition example_accent_lower :: "string \<Rightarrow> string" where
  "example_accent_lower s =
     (if s = [CHR 0xC3, CHR 0x89] then [CHR 0xC3, CHR 0xA9] else lower s)"

section \<open>Properties of the string operations\<close>

lemma str_in_iff: "str_in p s \<longleftrightarrow> (\<exists>a b. s = a @ p @ b)"
proof (induction s)
  case Nil
  then show ?case by auto
next
  case (Cons c cs)
  have "sublist p (c # cs) \<longleftrightarrow> prefix p (c # cs) \<or> sublist p cs"
    by (rule sublist_Cons_right)
  moreover have "str_in p cs \<longleftrightarrow> sublist p cs"
    using Cons.IH by (simp add: sublist_def)
  ultimately show ?case
    by (simp add: sublist_def)
qed

lemma pattern_loop_iff:
  "pattern_loop ks ql \<longleftrightarrow> (\<exists>k \<in> set ks. str_in k ql)"
  by (induction ks) auto

section \<open>The classifier\<close>

lemma pattern_keys_lower: "\<forall>k \<in> set (map fst PATTERN_QUERIES). lower k = k"
  by (simp add: PATTERN_QUERIES_def lower_def lower_char_def)

lemma list_ex_str_in_iff:
  "list_ex (\<lambda>w. str_in w ql) ws \<longleftrightarrow> (\<exists>w \<in> set ws. \<exists>a b. ql = a @ w @ b)"
  by (simp add: list_ex_iff str_in_iff)

text \<open>
  Claim C1. With no explicit override, the classification of a question is
  \<open>Pattern Match\<close> if some key of the pattern dictionary occurs in the question as a
  substring, letter case ignored; otherwise \<open>AutoGen Multi-Agent\<close> if the lowercased
  question contains one of the complexity keywords; otherwise \<open>AI-Powered\<close>. The result
  depends on the lowercased question only, so two questions with the same lowercase form
  (and two runs on one question) are classified alike.
\<close>

theorem detect_processing_mode_spec:
  "detect_processing_mode q =
     (if \<exists>k \<in> set (map fst PATTERN_QUERIES). \<exists>a b. lower q = a @ lower k @ b
        then ''Pattern Match''
      else if \<exists>w \<in> set complex_indicators. \<exists>a b. lower q = a @ w @ b
        then ''AutoGen Multi-Agent''
      else ''AI-Powered'')
   \<and> (\<forall>q'. lower q' = lower q \<longrightarrow> detect_processing_mode q' = detect_processing_mode q)"
proof
  have keys: "(\<exists>k \<in> set (map fst PATTERN_QUERIES). \<exists>a b. lower q = a @ lower k @ b)
      \<longleftrightarrow> pattern_loop (map fst PATTERN_QUERIES) (lower q)"
    using pattern_keys_lower by (auto simp: pattern_loop_iff str_in_iff)
  show "detect_processing_mode q =
     (if \<exists>k \<in> set (map fst PATTERN_QUERIES). \<exists>a b. lower q = a @ lower k @ b
        then ''Pattern Match''
      else if \<exists>w \<in> set complex_indicators. \<exists>a b. lower q = a @ w @ b
        then ''AutoGen Multi-Agent''
      else ''AI-Powered'')"
    unfolding keys list_ex_str_in_iff [symmetric]
    by (simp add: detect_processing_mode_def Let_def)
  show "\<forall>q'. lower q' = lower q \<longrightarrow> detect_processing_mode q' = detect_processing_mode q"
    by (simp add: detect_processing_mode_def)
qed

theorem detect_processing_mode_spec_witness:
  "(\<exists>k \<in> set (map fst PATTERN_QUERIES). \<exists>a b.
       lower ''How many customers do we have?'' = a @ lower k @ b)
   \<and> detect_processing_mode ''How many customers do we have?'' = ''Pattern Match''
   \<and> detect_processing_mode ''HOW MANY CUSTOMERS DO WE HAVE?'' = ''Pattern Match''"
proof -
  have low: "lower ''HOW MANY CUSTOMERS DO WE HAVE?'' = lower ''How many customers do we have?''"
    by (simp add: lower_def lower_char_def)
  have pm: "detect_processing_mode ''How many customers do we have?'' = ''Pattern Match''"
    by (simp add: detect_processing_mode_def PATTERN_QUERIES_def lower_def lower_char_def)
  have ex: "\<exists>k \<in> set (map fst PATTERN_QUERIES). \<exists>a b.
       lower ''How many customers do we have?'' = a @ lower k @ b"
    using detect_processing_mode_spec [of "''How many customers do we have?''"]
    unfolding pm by (simp split: if_splits)
  have "detect_processing_mode ''HOW MANY CUSTOMERS DO WE HAVE?'' =
        detect_processing_mode ''How many customers do we have?''"
    using detect_processing_mode_spec [of "''How many customers do we have?''"] low by blast
  with pm ex show ?thesis by simp
qed

section \<open>Pattern matching and the multi-agent stream\<close>

lemma pattern_match_loop_None_iff:
  "pattern_match_loop ps ql db = None \<longleftrightarrow> \<not> pattern_loop (map fst ps) ql"
  by (induction ps) (auto split: sum.splits)

lemma pattern_match_loop_Some:
  "pattern_match_loop ps ql db = Some r \<Longrightarrow>
     method_name r = ''Pattern Match'' \<and>
     (\<exists>item \<in> set ps. str_in (fst item) ql \<and> sql_query r = Some (snd item))"
  by (induction ps) (auto simp: new_response_def split: sum.splits if_splits)

lemma detect_pattern_iff:
  "detect_processing_mode q = ''Pattern Match'' \<longleftrightarrow>
     pattern_loop (map fst PATTERN_QUERIES) (lower q)"
  by (simp add: detect_processing_mode_def Let_def)

text \<open>
  Claim C9. Whenever the classifier selects \<open>Pattern Match\<close> for a question, the Pattern
  Match strategy finds a dictionary key in the same question: it returns a result built
  from the SQL template of a key that occurs in the lowercased question, never the
  no-match sentinel, and the dispatcher in automatic mode returns that result.
\<close>

theorem pattern_match_after_classification:
  assumes "detect_processing_mode q = ''Pattern Match''"
  shows "\<exists>r. process_pattern_match q (db_connector sys) = Some r
             \<and> method_name r = ''Pattern Match''
             \<and> (\<exists>item \<in> set PATTERN_QUERIES.
                    (\<exists>a b. lower q = a @ fst item @ b) \<and> sql_query r = Some (snd item))
             \<and> unified_query_processor ''Smart Auto'' t ag fe q sys
                 = r\<lparr>processing_time := Some t\<rparr>"
proof -
  from assms have "pattern_loop (map fst PATTERN_QUERIES) (lower q)"
    by (simp only: detect_pattern_iff)
  then obtain r where r: "process_pattern_match q (db_connector sys) = Some r"
    using pattern_match_loop_None_iff [of PATTERN_QUERIES "lower q" "db_connector sys"]
    by (auto simp: process_pattern_match_def)
  from r have m: "method_name r = ''Pattern Match''"
    and s: "\<exists>item \<in> set PATTERN_QUERIES.
               (\<exists>a b. lower q = a @ fst item @ b) \<and> sql_query r = Some (snd item)"
    using pattern_match_loop_Some [of PATTERN_QUERIES "lower q" "db_connector sys" r]
    by (auto simp: process_pattern_match_def str_in_iff)
  have "unified_query_processor ''Smart Auto'' t ag fe q sys = r\<lparr>processing_time := Some t\<rparr>"
    using assms r by (simp add: unified_query_processor_def Let_def)
  with r m s show ?thesis by blast
qed


theorem pattern_match_after_classification_witness:
  "detect_processing_mode ''How many customers do we have?'' = ''Pattern Match''
   \<and> (\<exists>r. process_pattern_match ''How many customers do we have?''
              (\<lambda>sql. Inr [[(''customer_count'', PNum 847)]]) = Some r
          \<and> method_name r = ''Pattern Match''
          \<and> sql_query r = Some ''SELECT COUNT(*) as customer_count FROM Customer''
          \<and> results r = Some [[(''customer_count'', PNum 847)]]
          \<and> success r)"
proof -
  let ?q = "''How many customers do we have?''"
  let ?db = "\<lambda>sql :: string. Inr [[(''customer_count'', PNum 847)]] :: string + row list"
  let ?sys = "\<lparr>db_connector = ?db, llm_client = None, autogen_system = False\<rparr>"
  have d: "detect_processing_mode ?q = ''Pattern Match''"
    by (simp add: detect_processing_mode_def PATTERN_QUERIES_def lower_def lower_char_def)
  from pattern_match_after_classification [OF d, of ?sys 0 "Inl []" None]
  obtain r where r: "process_pattern_match ?q ?db = Some r" and m: "method_name r = ''Pattern Match''"
    by auto
  have "process_pattern_match ?q ?db =
     Some ((new_response ''Pattern Match'' True)
               \<lparr>sql_query := Some ''SELECT COUNT(*) as customer_count FROM Customer'',
                results := Some [[(''customer_count'', PNum 847)]],
                explanation :=
                  Some (''Matched pattern '' @ [CHR 0x27] @ ''how many customers'' @ [CHR 0x27])\<rparr>)"
    by (simp add: process_pattern_match_def PATTERN_QUERIES_def lower_def lower_char_def)
  with r have "sql_query r = Some ''SELECT COUNT(*) as customer_count FROM Customer''
      \<and> results r = Some [[(''customer_count'', PNum 847)]] \<and> success r"
    by (auto simp: new_response_def)
  with d r m show ?thesis by blast
qed

lemma consume_stream_skip:
  assumes "\<forall>p \<in> set pre. payload_type p = None \<or> payload_type p = Some ''processing_update''"
  shows "consume_stream (map Yield pre @ rest) = consume_stream rest"
  using assms by (induction pre) auto

lemma consume_stream_terminal:
  assumes "payload_type t \<noteq> None" "payload_type t \<noteq> Some ''processing_update''"
  shows "consume_stream (Yield t # rest) = Inr (Some t)"
  using assms by simp

lemma collect_requests_eq:
  "collect_requests reqs acc =
     (fst acc @ concat (map (\<lambda>req. case assistant_question req of
                                 Some q \<Rightarrow> if q \<noteq> [] then [q] else [] | None \<Rightarrow> []) reqs),
      snd acc @ concat (map (\<lambda>req. case request_user_choices req of
                                 Some c \<Rightarrow> c | None \<Rightarrow> []) reqs))"
  by (induction reqs arbitrary: acc) (auto simp: Let_def split: option.splits)

lemma source_dicts_wf:
  assumes "\<forall>s \<in> set srcs. source_sql_query s \<noteq> None \<and> source_sql_rows s \<noteq> None"
  shows "source_dicts srcs =
           Inr (map (\<lambda>s. (the (source_sql_query s), the (source_sql_rows s))) srcs)"
  using assms by (induction srcs) auto


lemma scan_sources_wf:
  assumes "\<forall>s \<in> set srcs. source_sql_query s \<noteq> None \<and> source_sql_rows s \<noteq> None"
  shows "scan_sources srcs acc =
           (if srcs = [] then acc
            else (source_sql_query (last srcs), the (source_sql_rows (last srcs))))"
  using assms by (induction srcs arbitrary: acc) (auto simp: Let_def)

text \<open>
  Claim C10. The multi-agent invocation skips every event in front of the first terminal
  event (processing updates, and events with no payload type). A terminal
  disambiguation request is mapped to a successful disambiguation result with its
  questions and choices, a terminal answer with sources to a successful answer result
  with the sources' SQL and rows, whatever follows in the stream. A stream that ends
  with no terminal event gives a failure result.
\<close>

theorem process_autogen_sync_stream:
  assumes pre: "\<forall>p \<in> set pre. payload_type p = None \<or> payload_type p = Some ''processing_update''"
  shows "(let r = process_autogen_sync (Inr (\<lambda>q. map Yield pre)) question in
            \<not> success r \<and> method_name r = ''AutoGen Multi-Agent''
            \<and> error r = Some ''No response received from AutoGen system'')
    \<and> (payload_type t = Some ''disambiguation_requests'' \<and> body t = Some b \<longrightarrow>
         (let r = process_autogen_sync (Inr (\<lambda>q. map Yield pre @ Yield t # rest)) question;
              reqs = (case disambiguation_requests b of Some rs \<Rightarrow> rs | None \<Rightarrow> []) in
            success r \<and> response_type r = Some ''disambiguation''
            \<and> clarification_questions r =
                concat (map (\<lambda>req. case assistant_question req of
                                     Some q \<Rightarrow> if q \<noteq> [] then [q] else [] | None \<Rightarrow> []) reqs)
            \<and> user_choices r =
                concat (map (\<lambda>req. case request_user_choices req of
                                     Some c \<Rightarrow> c | None \<Rightarrow> []) reqs)))
    \<and> (payload_type t = Some ''answer_with_sources'' \<and> body t = Some b
         \<and> (\<forall>s \<in> set (case body_sources b of Some ss \<Rightarrow> ss | None \<Rightarrow> []).
                source_sql_query s \<noteq> None \<and> source_sql_rows s \<noteq> None) \<longrightarrow>
         (let r = process_autogen_sync (Inr (\<lambda>q. map Yield pre @ Yield t # rest)) question;
              srcs = (case body_sources b of Some ss \<Rightarrow> ss | None \<Rightarrow> []) in
            success r \<and> response_type r = Some ''answer''
            \<and> sources r = map (\<lambda>s. (the (source_sql_query s), the (source_sql_rows s))) srcs
            \<and> sql_query r = (if srcs = [] then None else source_sql_query (last srcs))
            \<and> results r = Some (if srcs = [] then [] else the (source_sql_rows (last srcs)))))"
proof (intro conjI impI)
  have "consume_stream (map Yield pre) = Inr None"
    using consume_stream_skip [OF pre, of "[]"] by simp
  then show "let r = process_autogen_sync (Inr (\<lambda>q. map Yield pre)) question in
            \<not> success r \<and> method_name r = ''AutoGen Multi-Agent''
            \<and> error r = Some ''No response received from AutoGen system''"
    by (simp add: process_autogen_sync_def new_response_def)
next
  assume a: "payload_type t = Some ''disambiguation_requests'' \<and> body t = Some b"
  then have "consume_stream (map Yield pre @ Yield t # rest) = Inr (Some t)"
    using consume_stream_skip [OF pre, of "Yield t # rest"] by simp
  then have "process_autogen_sync (Inr (\<lambda>q. map Yield pre @ Yield t # rest)) question
               = parse_response t"
    by (simp add: process_autogen_sync_def)
  then show "let r = process_autogen_sync (Inr (\<lambda>q. map Yield pre @ Yield t # rest)) question;
              reqs = (case disambiguation_requests b of Some rs \<Rightarrow> rs | None \<Rightarrow> []) in
            success r \<and> response_type r = Some ''disambiguation''
            \<and> clarification_questions r =
                concat (map (\<lambda>req. case assistant_question req of
                                     Some q \<Rightarrow> if q \<noteq> [] then [q] else [] | None \<Rightarrow> []) reqs)
            \<and> user_choices r =
                concat (map (\<lambda>req. case request_user_choices req of
                                     Some c \<Rightarrow> c | None \<Rightarrow> []) reqs)"
    using a by (simp add: parse_response_def Let_def new_response_def collect_requests_eq)
next
  assume a: "payload_type t = Some ''answer_with_sources'' \<and> body t = Some b
         \<and> (\<forall>s \<in> set (case body_sources b of Some ss \<Rightarrow> ss | None \<Rightarrow> []).
                source_sql_query s \<noteq> None \<and> source_sql_rows s \<noteq> None)"
  define srcs where "srcs = (case body_sources b of Some ss \<Rightarrow> ss | None \<Rightarrow> [])"
  from a have wf: "\<forall>s \<in> set srcs. source_sql_query s \<noteq> None \<and> source_sql_rows s \<noteq> None"
    by (simp add: srcs_def)
  from a have "consume_stream (map Yield pre @ Yield t # rest) = Inr (Some t)"
    using consume_stream_skip [OF pre, of "Yield t # rest"] by simp
  then have "process_autogen_sync (Inr (\<lambda>q. map Yield pre @ Yield t # rest)) question
               = parse_response t"
    by (simp add: process_autogen_sync_def)
  moreover have "success (parse_response t) \<and> response_type (parse_response t) = Some ''answer''
      \<and> sources (parse_response t) = map (\<lambda>s. (the (source_sql_query s), the (source_sql_rows s))) srcs
      \<and> sql_query (parse_response t) = (if srcs = [] then None else source_sql_query (last srcs))
      \<and> results (parse_response t) = Some (if srcs = [] then [] else the (source_sql_rows (last srcs)))"
    using a source_dicts_wf [OF wf] scan_sources_wf [OF wf, of "(None, [])"]
    by (simp add: parse_response_def Let_def new_response_def srcs_def [symmetric])
  ultimately show "let r = process_autogen_sync (Inr (\<lambda>q. map Yield pre @ Yield t # rest)) question;
              srcs = (case body_sources b of Some ss \<Rightarrow> ss | None \<Rightarrow> []) in
            success r \<and> response_type r = Some ''answer''
            \<and> sources r = map (\<lambda>s. (the (source_sql_query s), the (source_sql_rows s))) srcs
            \<and> sql_query r = (if srcs = [] then None else source_sql_query (last srcs))
            \<and> results r = Some (if srcs = [] then [] else the (source_sql_rows (last srcs)))"
    by (simp add: Let_def srcs_def [symmetric])
qed

theorem process_autogen_sync_stream_witness:
  "payload_type example_update = Some ''processing_update''
   \<and> payload_type example_disambiguation = Some ''disambiguation_requests''
   \<and> \<not> success (process_autogen_sync (Inr (\<lambda>q. [Yield example_update])) ''q'')
   \<and> success (process_autogen_sync
        (Inr (\<lambda>q. [Yield example_update, Yield example_disambiguation, Raise ''late''])) ''q'')
   \<and> clarification_questions (process_autogen_sync
        (Inr (\<lambda>q. [Yield example_update, Yield example_disambiguation, Raise ''late''])) ''q'')
       = [''Which year?'', ''Which region?'']
   \<and> user_choices (process_autogen_sync
        (Inr (\<lambda>q. [Yield example_update, Yield example_disambiguation, Raise ''late''])) ''q'')
       = [''2023'', ''2024'', ''Europe'']"
proof -
  have pre: "\<forall>p \<in> set [example_update].
       payload_type p = None \<or> payload_type p = Some ''processing_update''"
    by (simp add: example_update_def)
  have u: "payload_type example_update = Some ''processing_update''"
    by (simp add: example_update_def)
  have t: "payload_type example_disambiguation = Some ''disambiguation_requests''
      \<and> body example_disambiguation = Some example_disambiguation_body"
    by (simp add: example_disambiguation_def)
  from process_autogen_sync_stream [OF pre, of "''q''" example_disambiguation
      example_disambiguation_body "[Raise ''late'']"] t u
  show ?thesis
    by (simp add: Let_def example_disambiguation_body_def)
qed

section \<open>The experiment ledger\<close>

lemma info_run_id_apply_call [simp]: "info_run_id (apply_call c r) = info_run_id r"
  by (cases c) auto

lemma info_run_id_run_calls [simp]: "info_run_id (run_calls ok cs r) = info_run_id r"
  by (induction cs arbitrary: r) auto

lemma run_calls_append:
  "run_calls ok (xs @ ys) r =
     (if list_all ok xs then run_calls ok ys (run_calls ok xs r) else run_calls ok xs r)"
  by (induction xs arbitrary: r) auto

lemma metrics_apply_call: "\<exists>extra. metrics (apply_call c r) = metrics r @ extra"
  by (cases c) auto

lemma metrics_run_calls: "\<exists>extra. metrics (run_calls ok cs r) = metrics r @ extra"
proof (induction cs arbitrary: r)
  case Nil
  then show ?case by simp
next
  case (Cons c cs)
  show ?case
  proof (cases "ok c")
    case True
    from metrics_apply_call [of c r] obtain e1 where
      e1: "metrics (apply_call c r) = metrics r @ e1" by blast
    from Cons.IH [of "apply_call c r"] obtain e2 where
      "metrics (run_calls ok cs (apply_call c r)) = metrics (apply_call c r) @ e2" by blast
    with e1 True show ?thesis by simp
  next
    case False
    then show ?thesis by simp
  qed
qed

lemma calls_made_subset: "set (calls_made ok cs) \<subseteq> set cs"
  by (induction cs) auto

lemma experiment_calls_no_start:
  "StartRun \<notin> set (experiment_calls tr rid q a res t sid)"
  by (simp add: experiment_calls_def split: option.splits)

lemma first_calls_accepted:
  assumes "list_all ok [LogParam a1 b1, LogParam a2 b2, LogParam a3 b3, LogParam a4 b4,
             LogMetric ''execution_time_seconds'' t, LogMetric ''success'' v]"
  shows "metrics (run_calls ok [LogParam a1 b1, LogParam a2 b2, LogParam a3 b3,
             LogParam a4 b4, LogMetric ''execution_time_seconds'' t, LogMetric ''success'' v]
           \<lparr>info_run_id = rid, params = [], metrics = [], artifacts = []\<rparr>)
         = [(''execution_time_seconds'', t), (''success'', v)]"
  using assms by simp

lemma first_calls_refused:
  assumes "\<not> list_all ok [LogParam a1 b1, LogParam a2 b2, LogParam a3 b3, LogParam a4 b4,
             LogMetric ''execution_time_seconds'' t, LogMetric ''success'' v]"
  shows "map_of (metrics (run_calls ok [LogParam a1 b1, LogParam a2 b2, LogParam a3 b3,
             LogParam a4 b4, LogMetric ''execution_time_seconds'' t, LogMetric ''success'' v]
           \<lparr>info_run_id = rid, params = [], metrics = [], artifacts = []\<rparr>)) ''success''
         = None"
  using assms by auto

lemma success_metric_iff:
  assumes calls: "calls = [LogParam a1 b1, LogParam a2 b2, LogParam a3 b3, LogParam a4 b4,
             LogMetric ''execution_time_seconds'' t, LogMetric ''success'' v] @ rest"
  shows "map_of (metrics (run_calls ok calls
           \<lparr>info_run_id = rid, params = [], metrics = [], artifacts = []\<rparr>)) ''success''
         = (if list_all ok [LogParam a1 b1, LogParam a2 b2, LogParam a3 b3, LogParam a4 b4,
             LogMetric ''execution_time_seconds'' t, LogMetric ''success'' v]
            then Some v else None)"
proof -
  define first where "first = [LogParam a1 b1, LogParam a2 b2, LogParam a3 b3, LogParam a4 b4,
             LogMetric ''execution_time_seconds'' t, LogMetric ''success'' v]"
  define r0 where "r0 = \<lparr>info_run_id = rid, params = [], metrics = [], artifacts = []\<rparr>"
  have split: "run_calls ok calls r0 =
     (if list_all ok first then run_calls ok rest (run_calls ok first r0)
      else run_calls ok first r0)"
    unfolding calls first_def [symmetric] by (rule run_calls_append)
  show ?thesis
  proof (cases "list_all ok first")
    case True
    then have m: "metrics (run_calls ok first r0)
                    = [(''execution_time_seconds'', t), (''success'', v)]"
      unfolding first_def r0_def by (rule first_calls_accepted)
    from metrics_run_calls [of ok rest "run_calls ok first r0"] obtain extra where
      "metrics (run_calls ok rest (run_calls ok first r0))
         = metrics (run_calls ok first r0) @ extra" by blast
    then have "metrics (run_calls ok rest (run_calls ok first r0))
         = [(''execution_time_seconds'', t), (''success'', v)] @ extra"
      by (simp only: m)
    then have "map_of (metrics (run_calls ok rest (run_calls ok first r0))) ''success'' = Some v"
      by simp
    with True split have "map_of (metrics (run_calls ok calls r0)) ''success''
         = (if list_all ok first then Some v else None)"
      by (simp only: if_True)
    then show ?thesis
      unfolding first_def r0_def .
  next
    case False
    then have "map_of (metrics (run_calls ok first r0)) ''success'' = None"
      unfolding first_def r0_def by (rule first_calls_refused)
    with False split have "map_of (metrics (run_calls ok calls r0)) ''success''
         = (if list_all ok first then Some v else None)"
      by (simp only: if_False)
    then show ?thesis
      unfolding first_def r0_def .
  qed
qed

lemma display_effects:
  "\<exists>x. snd (display_unified_results tr st response)
         = map Tracking (snd (snd (log_query_experiment tr (mlflow_store st)
               (case question_text response of Some q \<Rightarrow> q | None \<Rightarrow> [])
               (method_name response) response
               (case processing_time response of Some t \<Rightarrow> t | None \<Rightarrow> 0)
               (Some (state_session_id st))))) @ [Display x]
       \<and> (case x of ShownError e \<Rightarrow> \<not> success response | _ \<Rightarrow> success response)"
  by (simp add: display_unified_results_def Let_def)

lemma display_state:
  "fst (display_unified_results tr st response)
     = st\<lparr>mlflow_store := fst (snd (log_query_experiment tr (mlflow_store st)
               (case question_text response of Some q \<Rightarrow> q | None \<Rightarrow> [])
               (method_name response) response
               (case processing_time response of Some t \<Rightarrow> t | None \<Rightarrow> 0)
               (Some (state_session_id st)))),
         current_run_id := fst (log_query_experiment tr (mlflow_store st)
               (case question_text response of Some q \<Rightarrow> q | None \<Rightarrow> [])
               (method_name response) response
               (case processing_time response of Some t \<Rightarrow> t | None \<Rightarrow> 0)
               (Some (state_session_id st)))\<rparr>"
  by (simp add: display_unified_results_def Let_def)

lemma logged_calls:
  "\<exists>cs. snd (snd (log_query_experiment tr store q a res t sid)) = StartRun # cs
        \<and> StartRun \<notin> set cs"
proof (cases "accepts tr StartRun")
  case False
  then show ?thesis by (simp add: log_query_experiment_def)
next
  case True
  have "StartRun \<notin> set (calls_made (accepts tr)
          (experiment_calls tr (new_run_id tr store) q a res t sid))"
    using calls_made_subset experiment_calls_no_start by blast
  with True show ?thesis
    by (simp add: log_query_experiment_def Let_def)
qed

text \<open>
  Claim C2, as amended. Showing a result starts logging it exactly once, and every call
  to the tracking API is made before anything is put on the page. When the tracking
  store refuses to start the run, the failure is swallowed: nothing is recorded and the
  current run identifier is \<open>None\<close>. When it starts the run, exactly one record is added
  and its identifier becomes the current one. The record has a \<open>success\<close> metric exactly
  when the store also accepts the six calls up to and including the one that logs it;
  the metric then is 1 for a result shown as an answer or a clarification request and 0
  for one shown as an error, whether or not a later call is refused.
\<close>

theorem display_unified_results_logs:
  "(let out = display_unified_results tr st response;
        st' = fst out;
        t = (case processing_time response of Some t \<Rightarrow> t | None \<Rightarrow> 0);
        q = (case question_text response of Some q \<Rightarrow> q | None \<Rightarrow> []);
        rid = new_run_id tr (mlflow_store st);
        sid = (if state_session_id st \<noteq> [] then state_session_id st else uuid4 tr);
        first = [LogParam ''question'' q, LogParam ''approach'' (method_name response),
                 LogParam ''session_id'' sid, LogParam ''timestamp'' (now tr),
                 LogMetric ''execution_time_seconds'' t,
                 LogMetric ''success'' (if success response then 1 else 0)]
    in \<exists>cs x.
         snd out = map Tracking (StartRun # cs) @ [Display x]
       \<and> StartRun \<notin> set cs
       \<and> (case x of ShownError e \<Rightarrow> \<not> success response | _ \<Rightarrow> success response)
       \<and> (\<not> accepts tr StartRun \<longrightarrow>
            mlflow_store st' = mlflow_store st \<and> current_run_id st' = None)
       \<and> (accepts tr StartRun \<longrightarrow>
            (\<exists>r. mlflow_store st' = mlflow_store st @ [r] \<and> info_run_id r = rid
                 \<and> current_run_id st' = Some rid
                 \<and> ((\<forall>c \<in> set first. accepts tr c) \<longrightarrow>
                      (case x of
                         ShownError e \<Rightarrow> map_of (metrics r) ''success'' = Some 0
                       | _ \<Rightarrow> map_of (metrics r) ''success'' = Some 1))
                 \<and> (\<not> (\<forall>c \<in> set first. accepts tr c) \<longrightarrow>
                      map_of (metrics r) ''success'' = None))))"
proof -
  define t where "t = (case processing_time response of Some t \<Rightarrow> t | None \<Rightarrow> (0::real))"
  define q where "q = (case question_text response of Some q \<Rightarrow> q | None \<Rightarrow> [])"
  define rid where "rid = new_run_id tr (mlflow_store st)"
  define sid where "sid = (if state_session_id st \<noteq> [] then state_session_id st else uuid4 tr)"
  define v :: real where "v = (if success response then 1 else 0)"
  define first where "first = [LogParam ''question'' q, LogParam ''approach'' (method_name response),
                 LogParam ''session_id'' sid, LogParam ''timestamp'' (now tr),
                 LogMetric ''execution_time_seconds'' t, LogMetric ''success'' v]"
  define calls where "calls = experiment_calls tr rid q (method_name response) response t
                  (Some (state_session_id st))"
  define r where "r = run_calls (accepts tr) calls
                        \<lparr>info_run_id = rid, params = [], metrics = [], artifacts = []\<rparr>"
  define logged where "logged = log_query_experiment tr (mlflow_store st) q
      (method_name response) response t (Some (state_session_id st))"
  from display_effects [of tr st response] obtain x where
    eff: "snd (display_unified_results tr st response)
            = map Tracking (snd (snd logged)) @ [Display x]" and
    var: "(case x of ShownError e \<Rightarrow> \<not> success response | _ \<Rightarrow> success response)"
    unfolding logged_def q_def t_def by blast
  from logged_calls [of tr "mlflow_store st" q "method_name response" response t
      "Some (state_session_id st)"] obtain cs where
    cs: "snd (snd logged) = StartRun # cs" "StartRun \<notin> set cs"
    unfolding logged_def by blast
  have st': "fst (display_unified_results tr st response)
        = st\<lparr>mlflow_store := fst (snd logged), current_run_id := fst logged\<rparr>"
    unfolding logged_def q_def t_def by (rule display_state)
  have down: "\<not> accepts tr StartRun \<Longrightarrow>
      mlflow_store (fst (display_unified_results tr st response)) = mlflow_store st
      \<and> current_run_id (fst (display_unified_results tr st response)) = None"
    by (simp add: st' logged_def log_query_experiment_def)
  have up: "accepts tr StartRun \<Longrightarrow>
      mlflow_store (fst (display_unified_results tr st response)) = mlflow_store st @ [r]
      \<and> info_run_id r = rid
      \<and> current_run_id (fst (display_unified_results tr st response)) = Some rid"
    by (simp add: st' logged_def log_query_experiment_def Let_def r_def calls_def rid_def)
  obtain rest where split: "calls = [LogParam ''question'' q,
                 LogParam ''approach'' (method_name response),
                 LogParam ''session_id'' sid, LogParam ''timestamp'' (now tr),
                 LogMetric ''execution_time_seconds'' t, LogMetric ''success'' v] @ rest"
    by (simp add: calls_def experiment_calls_def sid_def v_def)
  have metric: "map_of (metrics r) ''success''
                  = (if list_all (accepts tr) first then Some v else None)"
    unfolding r_def first_def using split by (rule success_metric_iff)
  have all: "list_all (accepts tr) first \<longleftrightarrow> (\<forall>c \<in> set first. accepts tr c)"
    by (simp add: list_all_iff)
  have yes: "(\<forall>c \<in> set first. accepts tr c) \<Longrightarrow>
      (case x of ShownError e \<Rightarrow> map_of (metrics r) ''success'' = Some 0
       | _ \<Rightarrow> map_of (metrics r) ''success'' = Some 1)"
    using metric var unfolding all v_def by (auto split: shown.splits)
  have no: "\<not> (\<forall>c \<in> set first. accepts tr c) \<Longrightarrow> map_of (metrics r) ''success'' = None"
    using metric unfolding all by simp
  have "snd (display_unified_results tr st response) = map Tracking (StartRun # cs) @ [Display x]
       \<and> StartRun \<notin> set cs
       \<and> (case x of ShownError e \<Rightarrow> \<not> success response | _ \<Rightarrow> success response)
       \<and> (\<not> accepts tr StartRun \<longrightarrow>
            mlflow_store (fst (display_unified_results tr st response)) = mlflow_store st
            \<and> current_run_id (fst (display_unified_results tr st response)) = None)
       \<and> (accepts tr StartRun \<longrightarrow>
            (\<exists>r. mlflow_store (fst (display_unified_results tr st response))
                    = mlflow_store st @ [r] \<and> info_run_id r = rid
                 \<and> current_run_id (fst (display_unified_results tr st response)) = Some rid
                 \<and> ((\<forall>c \<in> set first. accepts tr c) \<longrightarrow>
                      (case x of
                         ShownError e \<Rightarrow> map_of (metrics r) ''success'' = Some 0
                       | _ \<Rightarrow> map_of (metrics r) ''success'' = Some 1))
                 \<and> (\<not> (\<forall>c \<in> set first. accepts tr c) \<longrightarrow>
                      map_of (metrics r) ''success'' = None)))"
    using eff cs var down up yes no by (simp only:) blast
  then show ?thesis
    unfolding Let_def t_def [symmetric] q_def [symmetric] rid_def [symmetric]
      sid_def [symmetric] v_def [symmetric] first_def [symmetric]
    by blast
qed

text \<open>With a tracking store that refuses to start a run, showing a result records
  nothing. With one that refuses the first parameter, the record of a successful result
  has no metric.\<close>

theorem display_unified_results_counterexample:
  "mlflow_store (fst (display_unified_results (example_tracking [StartRun]) example_state
      example_response)) = []
   \<and> current_run_id (fst (display_unified_results (example_tracking [StartRun]) example_state
      example_response)) = None
   \<and> success example_response
   \<and> map metrics (mlflow_store (fst (display_unified_results
        (example_tracking [LogParam ''question'' ''How many customers do we have?''])
        example_state example_response))) = [[]]"
  by (simp add: display_unified_results_def log_query_experiment_def example_tracking_def
      example_state_def example_response_def new_response_def experiment_calls_def Let_def)

theorem display_unified_results_logs_witness:
  "accepts (example_tracking [LogArtifact ''query_result_run-1.json'']) StartRun
   \<and> \<not> accepts (example_tracking [LogArtifact ''query_result_run-1.json''])
         (LogArtifact ''query_result_run-1.json'')
   \<and> (\<exists>r. mlflow_store (fst (display_unified_results
               (example_tracking [LogArtifact ''query_result_run-1.json'']) example_state
               example_response)) = [r]
          \<and> map_of (metrics r) ''success'' = Some 1)"
proof -
  let ?tr = "example_tracking [LogArtifact ''query_result_run-1.json'']"
  have a: "accepts ?tr StartRun"
    and b: "\<not> accepts ?tr (LogArtifact ''query_result_run-1.json'')"
    and c: "\<And>k v. accepts ?tr (LogParam k v)" "\<And>k v. accepts ?tr (LogMetric k v)"
    by (simp_all add: example_tracking_def)
  have s: "success example_response" "mlflow_store example_state = []"
    by (simp_all add: example_response_def new_response_def example_state_def)
  from display_unified_results_logs [of ?tr example_state example_response]
  obtain x r where
    v: "(case x of ShownError e \<Rightarrow> \<not> success example_response
         | _ \<Rightarrow> success example_response)" and
    r: "mlflow_store (fst (display_unified_results ?tr example_state example_response)) = [r]"
    and m: "(case x of ShownError e \<Rightarrow> map_of (metrics r) ''success'' = Some 0
             | _ \<Rightarrow> map_of (metrics r) ''success'' = Some 1)"
    using a c s unfolding Let_def by auto
  from v m s have "map_of (metrics r) ''success'' = Some 1"
    by (cases x) simp_all
  with a b r show ?thesis by blast
qed

section \<open>Retrieval\<close>

lemma score_at_similarity: "score_at dists i = Inr s \<Longrightarrow> s = similarity dists i"
  by (auto simp: score_at_def similarity_def split: option.splits list.splits if_splits)

lemma result_loop_filter:
  "result_loop i mds dists inc (Some m) = Inr items \<Longrightarrow>
     items = map (result_item inc)
               (filter (\<lambda>c. m / 4 \<le> snd c)
                  (zip mds (map (similarity dists) [i..<i + length mds])))"
proof (induction mds arbitrary: i items)
  case Nil
  then show ?case by simp
next
  case (Cons md rest)
  from Cons.prems obtain s where s: "score_at dists i = Inr s"
    by (cases "score_at dists i") auto
  then have sim: "similarity dists i = s"
    using score_at_similarity by blast
  have upt: "[i..<i + length (md # rest)] = i # [Suc i..<Suc i + length rest]"
    using upt_conv_Cons [of i "i + length (md # rest)"] by simp
  show ?case
  proof (cases "s < m / 4")
    case True
    with Cons.prems s have "result_loop (Suc i) rest dists inc (Some m) = Inr items"
      by simp
    from Cons.IH [OF this] True sim show ?thesis
      unfolding upt by simp
  next
    case False
    with Cons.prems s obtain tl_items where
      tl: "result_loop (Suc i) rest dists inc (Some m) = Inr tl_items"
      and items: "items = result_item inc (md, s) # tl_items"
      by (cases "result_loop (Suc i) rest dists inc (Some m)")
         (auto simp: result_item_def Let_def)
    from Cons.IH [OF tl] False sim items show ?thesis
      unfolding upt by simp
  qed
qed

lemma run_ai_search_query_filter:
  assumes q: "collection_query conn query vector_fields index_name top_n = Inr r"
    and run: "run_ai_search_query conn query vector_fields retrieval_fields index_name
                semantic_config top_n include_scores (Some m) = Inr items"
  shows "items = map (result_item include_scores)
                   (filter (\<lambda>c. m / 4 \<le> snd c) (candidate_scores r))"
proof (cases "metadatas r")
  case None
  with q run show ?thesis
    by (simp add: run_ai_search_query_def candidate_scores_def)
next
  case (Some mss)
  show ?thesis
  proof (cases mss)
    case Nil
    with Some q run show ?thesis
      by (simp add: run_ai_search_query_def candidate_scores_def)
  next
    case (Cons m0 rest)
    show ?thesis
    proof (cases "m0 = []")
      case True
      with Some Cons q run show ?thesis
        by (simp add: run_ai_search_query_def candidate_scores_def)
    next
      case False
      with Some Cons q run
      have "result_loop 0 m0 (distances r) include_scores (Some m) = Inr items"
        by (simp add: run_ai_search_query_def)
      from result_loop_filter [OF this] Some Cons show ?thesis
        by (simp add: candidate_scores_def)
    qed
  qed
qed

lemma map_of_result_item:
  "map_of (result_item True c) ''@search.score'' = Some (PNum (snd c))"
  by (simp add: result_item_def update_conv')

text \<open>
  Claim C3. When a minimum score \<open>m\<close> is supplied, the entries returned are exactly the
  candidates of the query result whose score is at least \<open>m / 4\<close>, in their order: every
  returned entry has such a score and every candidate below the threshold is dropped.
  This holds for the query result of either branch (by embedding or by text). When
  scores are included, the score attached to each returned entry is at least \<open>m / 4\<close>.
\<close>

theorem run_ai_search_query_minimum_score:
  assumes "collection_query conn query vector_fields index_name top_n = Inr r"
    and "run_ai_search_query conn query vector_fields retrieval_fields index_name
           semantic_config top_n include_scores (Some m) = Inr items"
  shows "items = map (result_item include_scores)
                   (filter (\<lambda>c. m / 4 \<le> snd c) (candidate_scores r))
     \<and> (\<forall>c \<in> set (filter (\<lambda>c. m / 4 \<le> snd c) (candidate_scores r)). snd c \<ge> m / 4)
     \<and> (include_scores \<longrightarrow>
          (\<forall>item \<in> set items. \<exists>s. map_of item ''@search.score'' = Some (PNum s) \<and> s \<ge> m / 4))"
proof -
  have items: "items = map (result_item include_scores)
                   (filter (\<lambda>c. m / 4 \<le> snd c) (candidate_scores r))"
    using assms by (rule run_ai_search_query_filter)
  have "include_scores \<longrightarrow>
          (\<forall>item \<in> set items. \<exists>s. map_of item ''@search.score'' = Some (PNum s) \<and> s \<ge> m / 4)"
    unfolding items using map_of_result_item by auto
  with items show ?thesis by simp
qed

theorem run_ai_search_query_minimum_score_witness:
  "collection_query (example_connector example_hits) ''orders'' [''DefinitionEmbedding'']
      ''text2sql-schema-store'' 3 = Inr example_hits
   \<and> run_ai_search_query (example_connector example_hits) ''orders'' [''DefinitionEmbedding'']
        [] ''text2sql-schema-store'' None 3 True (Some 1.5)
      = Inr [[(''FQN'', PStr ''db.sales.Order''), (''Entity'', PStr ''Order''),
              (''CompleteEntityRelationshipsGraph'',
                 PList [''db.sales.Order -> db.sales.Customer'']),
              (''@search.score'', PNum 0.9)],
             [(''FQN'', PStr ''db.sales.Customer''), (''Entity'', PStr ''Customer''),
              (''SampleValues'', PList []), (''@search.score'', PNum 0.5)]]
   \<and> map (result_item True)
        (filter (\<lambda>c. 1.5 / 4 \<le> snd c) (candidate_scores example_hits))
      = [[(''FQN'', PStr ''db.sales.Order''), (''Entity'', PStr ''Order''),
              (''CompleteEntityRelationshipsGraph'',
                 PList [''db.sales.Order -> db.sales.Customer'']),
              (''@search.score'', PNum 0.9)],
             [(''FQN'', PStr ''db.sales.Customer''), (''Entity'', PStr ''Customer''),
              (''SampleValues'', PList []), (''@search.score'', PNum 0.5)]]"
proof -
  have q: "collection_query (example_connector example_hits) ''orders''
      [''DefinitionEmbedding''] ''text2sql-schema-store'' 3 = Inr example_hits"
    by (simp add: collection_query_def example_connector_def)
  have run: "run_ai_search_query (example_connector example_hits) ''orders''
        [''DefinitionEmbedding''] [] ''text2sql-schema-store'' None 3 True (Some 1.5)
      = Inr [[(''FQN'', PStr ''db.sales.Order''), (''Entity'', PStr ''Order''),
              (''CompleteEntityRelationshipsGraph'',
                 PList [''db.sales.Order -> db.sales.Customer'']),
              (''@search.score'', PNum 0.9)],
             [(''FQN'', PStr ''db.sales.Customer''), (''Entity'', PStr ''Customer''),
              (''SampleValues'', PList []), (''@search.score'', PNum 0.5)]]"
    unfolding run_ai_search_query_def q
    by (simp add: example_hits_def score_at_def)
  from run_ai_search_query_minimum_score [OF q run] q run show ?thesis
    by simp
qed

lemma result_loop_all_dropped:
  assumes "\<forall>j. i \<le> j \<and> j < i + length mds \<longrightarrow> (\<exists>s. score_at dists j = Inr s \<and> s < m / 4)"
  shows "result_loop i mds dists inc (Some m) = Inr []"
  using assms
proof (induction mds arbitrary: i)
  case Nil
  then show ?case by simp
next
  case (Cons md rest)
  from Cons.prems obtain s where s: "score_at dists i = Inr s" "s < m / 4"
    by force
  have "\<forall>j. Suc i \<le> j \<and> j < Suc i + length rest \<longrightarrow>
          (\<exists>s. score_at dists j = Inr s \<and> s < m / 4)"
    using Cons.prems by simp
  from Cons.IH [OF this] s show ?case by simp
qed

lemma cosine_result_scores:
  assumes "cosine_result r" "metadatas r = Some (m0 # rest)" "j < length m0"
  shows "\<exists>s. score_at (distances r) j = Inr s \<and> s < 5 / 4"
proof (cases "distances r")
  case None
  then show ?thesis by (simp add: score_at_def)
next
  case (Some dss)
  show ?thesis
  proof (cases dss)
    case Nil
    with Some show ?thesis by (simp add: score_at_def)
  next
    case (Cons d0 ds)
    with Some assms have len: "j < length d0" and nn: "0 \<le> d0 ! j"
      by (auto simp: cosine_result_def list_all_length)
    with Some Cons show ?thesis by (simp add: score_at_def)
  qed
qed

text \<open>
  Claim C4. \<open>get_column_values\<close> queries by text with 50 results and minimum score 5,
  that is with the threshold 1.25. On a store with cosine distances every score is at
  most 1, so every candidate is dropped and the result is empty.
\<close>

theorem get_column_values_empty:
  assumes "\<And>index_name. cosine_result (query_texts conn index_name text_v 50)"
  shows "get_column_values conn text_v = Inr []"
proof -
  define index_name where "index_name =
     (case environ conn ''CHROMA_TEXT2SQL_COLUMN_VALUE_STORE'' of
               Some v \<Rightarrow> v
             | None \<Rightarrow> ''text2sql-column-value-store'')"
  define r where "r = query_texts conn index_name text_v 50"
  have cos: "cosine_result r"
    unfolding r_def by (rule assms)
  have q: "collection_query conn text_v [] index_name 50 = Inr r"
    by (simp add: collection_query_def r_def)
  have "run_ai_search_query conn text_v [] [''FQN'', ''Column'', ''Value''] index_name None
           50 False (Some 5) = Inr []"
  proof (cases "metadatas r")
    case None
    with q show ?thesis by (simp add: run_ai_search_query_def)
  next
    case (Some mss)
    show ?thesis
    proof (cases mss)
      case Nil
      with Some q show ?thesis by (simp add: run_ai_search_query_def)
    next
      case (Cons m0 rest)
      have "\<forall>j. 0 \<le> j \<and> j < 0 + length m0 \<longrightarrow>
              (\<exists>s. score_at (distances r) j = Inr s \<and> s < 5 / 4)"
        using cosine_result_scores [OF cos] Some Cons by simp
      from result_loop_all_dropped [OF this] Some Cons q show ?thesis
        by (simp add: run_ai_search_query_def)
    qed
  qed
  then show ?thesis
    by (simp add: get_column_values_def index_name_def)
qed

theorem get_column_values_empty_witness:
  "cosine_result example_hits
   \<and> get_column_values (example_connector example_hits) ''Order'' = Inr []"
proof -
  have c: "cosine_result example_hits"
    by (simp add: cosine_result_def example_hits_def)
  then have "\<And>index_name.
      cosine_result (query_texts (example_connector example_hits) index_name ''Order'' 50)"
    by (simp add: example_connector_def)
  from get_column_values_empty [OF this] c show ?thesis by simp
qed

section \<open>Entity schemas\<close>

lemma trim_graph_other:
  assumes "trim_graph fqn s = Inr s'" "k \<noteq> ''CompleteEntityRelationshipsGraph''"
  shows "map_of s' k = map_of s k"
  using assms
  by (auto simp: trim_graph_def update_conv' delete_conv'
           split: option.splits pyval.splits sum.splits if_splits)

lemma delete_if_empty_other:
  assumes "delete_if_empty key s = Inr s'" "k \<noteq> key"
  shows "map_of s' k = map_of s k"
  using assms
  by (auto simp: delete_if_empty_def delete_conv'
           split: option.splits pyval.splits sum.splits if_splits)

lemma process_schema_other:
  assumes "process_schema fqn s = Inr s'"
    and "k \<noteq> ''CompleteEntityRelationshipsGraph''" "k \<noteq> ''SampleValues''"
    and "k \<noteq> ''EntityRelationships''"
  shows "map_of s' k = (if k = ''FQN'' then None else map_of s k)"
proof -
  define s1 where "s1 = (if ''FQN'' \<in> set (map fst s) then AList.delete ''FQN'' s else s)"
  have s1: "map_of s1 k = (if k = ''FQN'' then None else map_of s k)"
  proof (cases "''FQN'' \<in> set (map fst s)")
    case True
    then show ?thesis by (simp add: s1_def delete_conv')
  next
    case False
    then have "map_of s ''FQN'' = None"
      by (simp add: map_of_eq_None_iff)
    with False show ?thesis by (simp add: s1_def)
  qed
  from assms(1) obtain s2 s3 where
    s2: "trim_graph fqn s1 = Inr s2" and
    s3: "delete_if_empty ''SampleValues'' s2 = Inr s3" and
    s': "delete_if_empty ''EntityRelationships'' s3 = Inr s'"
    by (auto simp: process_schema_def s1_def Let_def split: sum.splits)
  from trim_graph_other [OF s2 assms(2)] delete_if_empty_other [OF s3 assms(3)]
    delete_if_empty_other [OF s' assms(4)] s1
  show ?thesis by simp
qed

lemma process_schema_graph:
  assumes "process_schema fqn s = Inr s'"
    and "map_of s ''CompleteEntityRelationshipsGraph'' = Some (PList xs)" "xs \<noteq> []"
  shows "map_of s' ''CompleteEntityRelationshipsGraph''
           = Some (PList (map (\<lambda>x. str_replace x fqn []) xs))"
proof -
  define s1 where "s1 = (if ''FQN'' \<in> set (map fst s) then AList.delete ''FQN'' s else s)"
  have s1: "map_of s1 ''CompleteEntityRelationshipsGraph'' = Some (PList xs)"
    using assms(2) by (auto simp: s1_def)
  from assms(1) obtain s2 s3 where
    s2: "trim_graph fqn s1 = Inr s2" and
    s3: "delete_if_empty ''SampleValues'' s2 = Inr s3" and
    s': "delete_if_empty ''EntityRelationships'' s3 = Inr s'"
    by (auto simp: process_schema_def s1_def Let_def split: sum.splits)
  from s2 s1 assms(3)
  have "map_of s2 ''CompleteEntityRelationshipsGraph''
           = Some (PList (map (\<lambda>x. str_replace x fqn []) xs))"
    by (auto simp: trim_graph_def update_conv')
  with delete_if_empty_other [OF s3] delete_if_empty_other [OF s']
  show ?thesis by simp
qed

lemma filter_schemas_sound:
  "filter_schemas py_lower fqn ex found = Inr out \<Longrightarrow>
     \<exists>kept. subseq kept found
        \<and> list_all2 (\<lambda>s e. process_schema fqn s = Inr e
                           \<and> (\<exists>name. entity_lower py_lower e = Inr name \<and> name \<notin> set ex)) kept out"
proof (induction found arbitrary: out)
  case Nil
  then show ?case by simp
next
  case (Cons schema rest)
  from Cons.prems obtain e name tl_out where
    e: "process_schema fqn schema = Inr e" and
    name: "entity_lower py_lower e = Inr name" and
    tl: "filter_schemas py_lower fqn ex rest = Inr tl_out" and
    out: "out = (if name \<notin> set ex then e # tl_out else tl_out)"
    by (auto split: sum.splits)
  from Cons.IH [OF tl] obtain kept where
    kept: "subseq kept rest"
      "list_all2 (\<lambda>s e. process_schema fqn s = Inr e
                           \<and> (\<exists>name. entity_lower py_lower e = Inr name \<and> name \<notin> set ex)) kept tl_out"
    by blast
  show ?case
  proof (cases "name \<in> set ex")
    case True
    with out kept show ?thesis
      by (auto intro: exI [of _ kept])
  next
    case False
    with out kept e name show ?thesis
      by (auto intro!: exI [of _ "schema # kept"])
  qed
qed

lemma get_entity_schemas_raw:
  "get_entity_schemas py_lower str_field conn text_v [] engine_fields
     = run_ai_search_query conn text_v [''DefinitionEmbedding'']
         ([''FQN'', ''Entity'', ''EntityName'', ''Schema'', ''Definition'', ''Columns'',
           ''EntityRelationships'', ''CompleteEntityRelationshipsGraph'']
          @ map str_field engine_fields)
         (case environ conn ''CHROMA_TEXT2SQL_SCHEMA_STORE'' of
            Some v \<Rightarrow> v | None \<Rightarrow> ''text2sql-schema-store'')
         None 3 False (Some 1.5)"
  by (simp add: get_entity_schemas_def Let_def split: sum.splits)

lemma get_entity_schemas_filtered:
  assumes "get_entity_schemas py_lower str_field conn text_v ex engine_fields = Inr out" "ex \<noteq> []"
  shows "\<exists>found. get_entity_schemas py_lower str_field conn text_v [] engine_fields = Inr found
           \<and> filter_schemas py_lower (str_join ''.'' (map str_field engine_fields)) ex found = Inr out"
  using assms unfolding get_entity_schemas_raw
  by (auto simp: get_entity_schemas_def Let_def split: sum.splits)

text \<open>
  Claim C5. When entities are excluded, no entry that \<open>get_entity_schemas\<close> returns has
  the key \<open>FQN\<close>, and the lowercased entity name of every returned entry is defined and
  is not among the excluded entities. This holds whatever \<open>str.lower\<close> does to the name.
\<close>

theorem get_entity_schemas_excluded:
  assumes "get_entity_schemas py_lower str_field conn text_v excluded_entities engine_fields = Inr out"
    and "excluded_entities \<noteq> []"
  shows "\<forall>e \<in> set out. ''FQN'' \<notin> fst ` set e
           \<and> (\<exists>name. entity_lower py_lower e = Inr name \<and> name \<notin> set excluded_entities)"
proof
  fix e assume e: "e \<in> set out"
  from get_entity_schemas_filtered [OF assms] obtain found where
    "filter_schemas py_lower (str_join ''.'' (map str_field engine_fields)) excluded_entities found = Inr out"
    by blast
  from filter_schemas_sound [OF this] obtain kept where
    "list_all2 (\<lambda>s e. process_schema (str_join ''.'' (map str_field engine_fields)) s = Inr e
        \<and> (\<exists>name. entity_lower py_lower e = Inr name \<and> name \<notin> set excluded_entities)) kept out"
    by blast
  with e obtain s where
    s: "process_schema (str_join ''.'' (map str_field engine_fields)) s = Inr e"
    and n: "\<exists>name. entity_lower py_lower e = Inr name \<and> name \<notin> set excluded_entities"
    by (auto simp: list_all2_conv_all_nth in_set_conv_nth)
  from process_schema_other [OF s, of "''FQN''"] have "map_of e ''FQN'' = None"
    by simp
  then have "''FQN'' \<notin> fst ` set e"
    by (simp add: map_of_eq_None_iff)
  with n show "''FQN'' \<notin> fst ` set e
           \<and> (\<exists>name. entity_lower py_lower e = Inr name \<and> name \<notin> set excluded_entities)"
    by simp
qed

lemma replace_scan_Nil: "replace_scan old new [] = []"
  by (subst replace_scan.simps) simp

lemma replace_scan_prefix:
  "old \<noteq> [] \<Longrightarrow> replace_scan old new (old @ r) = new @ replace_scan old new r"
  by (subst replace_scan.simps) simp

lemma replace_scan_Cons:
  "old \<noteq> [] \<Longrightarrow> \<not> prefix old (c # r) \<Longrightarrow>
     replace_scan old new (c # r) = c # replace_scan old new r"
  by (subst replace_scan.simps) simp

lemma replace_scan_absent:
  "\<not> str_in old x \<Longrightarrow> replace_scan old new x = x"
proof (induction x)
  case Nil
  show ?case by (rule replace_scan_Nil)
next
  case (Cons c cs)
  then have "\<not> prefix old (c # cs)" "\<not> str_in old cs" "old \<noteq> []"
    by auto
  with Cons.IH show ?case
    by (simp add: replace_scan_Cons)
qed

lemma str_replace_empty: "str_replace x [] [] = x"
  by (induction x) (auto simp: str_replace_def)

lemma str_replace_facts:
  "(\<forall>x. \<not> str_in old x \<longrightarrow> str_replace x old [] = x)
   \<and> (old \<noteq> [] \<longrightarrow> (\<forall>r. str_replace (old @ r) old [] = str_replace r old []))
   \<and> (old \<noteq> [] \<longrightarrow> (\<forall>c r. \<not> prefix old (c # r) \<longrightarrow>
          str_replace (c # r) old [] = c # str_replace r old []))
   \<and> (old = [] \<longrightarrow> (\<forall>x. str_replace x old [] = x))"
  using str_replace_empty
  by (auto simp: str_replace_def replace_scan_absent replace_scan_prefix replace_scan_Cons)

text \<open>
  Claim C6. With no excluded entities, \<open>get_entity_schemas\<close> returns what the retrieval
  query returns (3 results, minimum score 1.5, by embedding, without scores): no key is
  removed, no relationship is rewritten and no entry is dropped.
\<close>

theorem get_entity_schemas_no_exclusions:
  "get_entity_schemas py_lower str_field conn text_v [] engine_fields
     = run_ai_search_query conn text_v [''DefinitionEmbedding'']
         ([''FQN'', ''Entity'', ''EntityName'', ''Schema'', ''Definition'', ''Columns'',
           ''EntityRelationships'', ''CompleteEntityRelationshipsGraph'']
          @ map str_field engine_fields)
         (case environ conn ''CHROMA_TEXT2SQL_SCHEMA_STORE'' of
            Some v \<Rightarrow> v | None \<Rightarrow> ''text2sql-schema-store'')
         None 3 False (Some 1.5)"
  by (rule get_entity_schemas_raw)

text \<open>
  Claim C7, as amended. When entities are excluded, a returned entry whose relationship
  graph was a non-empty list of strings holds the list of these strings, each rewritten
  by \<open>replace(fqn_to_trim, "")\<close>, where \<open>fqn_to_trim\<close> is the string forms of the engine
  specific fields joined with a dot. The rewriting deletes every occurrence of
  \<open>fqn_to_trim\<close> found from left to right, at the front and elsewhere; a string in which
  it does not occur, and every string when it is empty, is unchanged.
\<close>

theorem get_entity_schemas_trims_graph:
  assumes "get_entity_schemas py_lower str_field conn text_v excluded_entities engine_fields = Inr out"
    and "excluded_entities \<noteq> []"
  shows "(\<exists>found kept.
            get_entity_schemas py_lower str_field conn text_v [] engine_fields = Inr found
          \<and> subseq kept found
          \<and> list_all2
              (\<lambda>schema e. \<forall>xs.
                 map_of schema ''CompleteEntityRelationshipsGraph'' = Some (PList xs)
                   \<and> xs \<noteq> [] \<longrightarrow>
                 map_of e ''CompleteEntityRelationshipsGraph''
                   = Some (PList (map (\<lambda>x. str_replace x
                        (str_join ''.'' (map str_field engine_fields)) []) xs)))
              kept out)
     \<and> (\<forall>x. \<not> str_in (str_join ''.'' (map str_field engine_fields)) x \<longrightarrow>
            str_replace x (str_join ''.'' (map str_field engine_fields)) [] = x)
     \<and> (str_join ''.'' (map str_field engine_fields) \<noteq> [] \<longrightarrow>
          (\<forall>r. str_replace (str_join ''.'' (map str_field engine_fields) @ r)
                  (str_join ''.'' (map str_field engine_fields)) []
               = str_replace r (str_join ''.'' (map str_field engine_fields)) []))
     \<and> (str_join ''.'' (map str_field engine_fields) \<noteq> [] \<longrightarrow>
          (\<forall>c r. \<not> prefix (str_join ''.'' (map str_field engine_fields)) (c # r) \<longrightarrow>
             str_replace (c # r) (str_join ''.'' (map str_field engine_fields)) []
               = c # str_replace r (str_join ''.'' (map str_field engine_fields)) []))
     \<and> (str_join ''.'' (map str_field engine_fields) = [] \<longrightarrow>
          (\<forall>x. str_replace x (str_join ''.'' (map str_field engine_fields)) [] = x))"
proof -
  define fqn where "fqn = str_join ''.'' (map str_field engine_fields)"
  from get_entity_schemas_filtered [OF assms] obtain found where
    found: "get_entity_schemas py_lower str_field conn text_v [] engine_fields = Inr found" and
    "filter_schemas py_lower fqn excluded_entities found = Inr out"
    unfolding fqn_def by blast
  from filter_schemas_sound [OF this(2)] obtain kept where
    kept: "subseq kept found" and
    all: "list_all2 (\<lambda>s e. process_schema fqn s = Inr e
        \<and> (\<exists>name. entity_lower py_lower e = Inr name \<and> name \<notin> set excluded_entities)) kept out"
    by blast
  have "list_all2
              (\<lambda>schema e. \<forall>xs.
                 map_of schema ''CompleteEntityRelationshipsGraph'' = Some (PList xs)
                   \<and> xs \<noteq> [] \<longrightarrow>
                 map_of e ''CompleteEntityRelationshipsGraph''
                   = Some (PList (map (\<lambda>x. str_replace x fqn []) xs)))
              kept out"
    using all by (rule list_all2_mono) (auto dest: process_schema_graph)
  with found kept have "\<exists>found kept.
            get_entity_schemas py_lower str_field conn text_v [] engine_fields = Inr found
          \<and> subseq kept found
          \<and> list_all2
              (\<lambda>schema e. \<forall>xs.
                 map_of schema ''CompleteEntityRelationshipsGraph'' = Some (PList xs)
                   \<and> xs \<noteq> [] \<longrightarrow>
                 map_of e ''CompleteEntityRelationshipsGraph''
                   = Some (PList (map (\<lambda>x. str_replace x fqn []) xs)))
              kept out"
    by blast
  with str_replace_facts [of fqn] show ?thesis
    unfolding fqn_def by blast
qed

lemma example_raw_schemas:
  "run_ai_search_query (example_connector example_hits) ''orders'' [''DefinitionEmbedding'']
     fs name None 3 False (Some 1.5)
   = Inr [[(''FQN'', PStr ''db.sales.Order''), (''Entity'', PStr ''Order''),
           (''CompleteEntityRelationshipsGraph'',
              PList [''db.sales.Order -> db.sales.Customer''])],
          [(''FQN'', PStr ''db.sales.Customer''), (''Entity'', PStr ''Customer''),
           (''SampleValues'', PList [])]]"
proof -
  have q: "collection_query (example_connector example_hits) ''orders''
      [''DefinitionEmbedding''] name 3 = Inr example_hits"
    by (simp add: collection_query_def example_connector_def)
  show ?thesis
    unfolding run_ai_search_query_def q
    by (simp add: example_hits_def score_at_def)
qed

lemma example_replace:
  "str_replace ''db.sales.Order -> db.sales.Customer'' ''db.sales'' [] = ''.Order -> .Customer''"
  by (simp add: str_replace_def replace_scan.simps)

lemma example_filtered_schemas:
  "get_entity_schemas lower id (example_connector example_hits) ''orders'' [''customer'']
     [''db'', ''sales'']
   = Inr [[(''Entity'', PStr ''Order''),
           (''CompleteEntityRelationshipsGraph'', PList [''.Order -> .Customer''])]]"
  unfolding get_entity_schemas_def Let_def example_raw_schemas
  by (simp add: process_schema_def trim_graph_def delete_if_empty_def entity_lower_def
        example_replace lower_def lower_char_def)

theorem get_entity_schemas_excluded_witness:
  "get_entity_schemas lower id (example_connector example_hits) ''orders'' [''customer'']
     [''db'', ''sales'']
   = Inr [[(''Entity'', PStr ''Order''),
           (''CompleteEntityRelationshipsGraph'', PList [''.Order -> .Customer''])]]
   \<and> ''FQN'' \<notin> fst ` set [(''Entity'', PStr ''Order''),
           (''CompleteEntityRelationshipsGraph'', PList [''.Order -> .Customer''])]
   \<and> entity_lower lower [(''Entity'', PStr ''Order''),
           (''CompleteEntityRelationshipsGraph'', PList [''.Order -> .Customer''])]
       = Inr ''order''"
proof -
  have ne: "[''customer''] \<noteq> ([] :: string list)"
    by simp
  from get_entity_schemas_excluded [OF example_filtered_schemas ne]
  have "''FQN'' \<notin> fst ` set [(''Entity'', PStr ''Order''),
           (''CompleteEntityRelationshipsGraph'', PList [''.Order -> .Customer''])]"
    by simp
  moreover have "entity_lower lower [(''Entity'', PStr ''Order''),
           (''CompleteEntityRelationshipsGraph'', PList [''.Order -> .Customer''])]
       = Inr ''order''"
    by (simp add: entity_lower_def lower_def lower_char_def)
  ultimately show ?thesis
    using example_filtered_schemas by simp
qed

text \<open>An entity whose name is changed by \<open>str.lower\<close> is kept when the exclusion list
  holds the name as it is written.\<close>

lemma get_entity_schemas_accent_example:
  "get_entity_schemas example_accent_lower id (example_connector example_accent_hits) ''q''
     [[CHR 0xC3, CHR 0x89]] []
   = Inr [[(''Entity'', PStr [CHR 0xC3, CHR 0x89])]]"
proof -
  have q: "collection_query (example_connector example_accent_hits) ''q''
      [''DefinitionEmbedding''] name 3 = Inr example_accent_hits" for name
    by (simp add: collection_query_def example_connector_def)
  show ?thesis
    unfolding get_entity_schemas_def Let_def run_ai_search_query_def q
    by (simp add: example_accent_hits_def score_at_def process_schema_def trim_graph_def
          delete_if_empty_def entity_lower_def example_accent_lower_def)
qed

theorem get_entity_schemas_no_exclusions_witness:
  "get_entity_schemas lower id (example_connector example_hits) ''orders'' [] [''db'', ''sales'']
   = Inr [[(''FQN'', PStr ''db.sales.Order''), (''Entity'', PStr ''Order''),
           (''CompleteEntityRelationshipsGraph'',
              PList [''db.sales.Order -> db.sales.Customer''])],
          [(''FQN'', PStr ''db.sales.Customer''), (''Entity'', PStr ''Customer''),
           (''SampleValues'', PList [])]]"
  using get_entity_schemas_no_exclusions
    [of lower id "example_connector example_hits" "''orders''" "[''db'', ''sales'']"]
  by (simp only: example_raw_schemas)

text \<open>An occurrence of the joined fields behind the front of a relationship string is
  deleted as well: the result is not the string with its prefix stripped.\<close>

theorem get_entity_schemas_prefix_counterexample:
  "get_entity_schemas lower id (example_connector example_hits) ''orders'' [''customer'']
     [''db'', ''sales'']
   = Inr [[(''Entity'', PStr ''Order''),
           (''CompleteEntityRelationshipsGraph'', PList [''.Order -> .Customer''])]]
   \<and> str_join ''.'' (map id [''db'', ''sales'']) = ''db.sales''
   \<and> ''db.sales.Order -> db.sales.Customer'' = ''db.sales'' @ ''.Order -> db.sales.Customer''
   \<and> ''.Order -> .Customer'' \<noteq> ''.Order -> db.sales.Customer''"
  using example_filtered_schemas by simp

theorem get_entity_schemas_trims_graph_witness:
  "get_entity_schemas lower id (example_connector example_hits) ''orders'' [''customer'']
     [''db'', ''sales'']
   = Inr [[(''Entity'', PStr ''Order''),
           (''CompleteEntityRelationshipsGraph'', PList [''.Order -> .Customer''])]]
   \<and> str_replace ''dbo.Order -> dbo.Customer'' (str_join ''.'' (map id [''db'', ''sales''])) []
       = ''dbo.Order -> dbo.Customer''
   \<and> str_replace (str_join ''.'' (map id [''db'', ''sales'']) @ ''.Order'')
         (str_join ''.'' (map id [''db'', ''sales''])) []
       = str_replace ''.Order'' (str_join ''.'' (map id [''db'', ''sales''])) []"
proof -
  have ne: "[''customer''] \<noteq> ([] :: string list)"
    by simp
  note t = get_entity_schemas_trims_graph [OF example_filtered_schemas ne]
  from t have absent: "\<forall>x. \<not> str_in (str_join ''.'' (map id [''db'', ''sales''])) x \<longrightarrow>
            str_replace x (str_join ''.'' (map id [''db'', ''sales''])) [] = x"
    by blast
  from t have front: "str_join ''.'' (map id [''db'', ''sales'']) \<noteq> [] \<longrightarrow>
          (\<forall>r. str_replace (str_join ''.'' (map id [''db'', ''sales'']) @ r)
                  (str_join ''.'' (map id [''db'', ''sales''])) []
               = str_replace r (str_join ''.'' (map id [''db'', ''sales''])) [])"
    by blast
  have "\<not> str_in (str_join ''.'' (map id [''db'', ''sales''])) ''dbo.Order -> dbo.Customer''"
    by simp
  with absent have a: "str_replace ''dbo.Order -> dbo.Customer''
       (str_join ''.'' (map id [''db'', ''sales''])) [] = ''dbo.Order -> dbo.Customer''"
    by blast
  have "str_join ''.'' (map id [''db'', ''sales'']) \<noteq> []"
    by simp
  with front have b: "str_replace (str_join ''.'' (map id [''db'', ''sales'']) @ ''.Order'')
         (str_join ''.'' (map id [''db'', ''sales''])) []
       = str_replace ''.Order'' (str_join ''.'' (map id [''db'', ''sales''])) []"
    by blast
  from example_filtered_schemas a b show ?thesis
    by (intro conjI)
qed

section \<open>The document identifier and the upsert\<close>

lemma of_char_less_256: "(of_char c :: nat) < 256"
proof -
  have "(of_char c :: nat) mod 256 = of_char c"
    by (rule of_char_mod_256)
  moreover have "(of_char c :: nat) mod 256 < 256"
    by simp
  ultimately show ?thesis by simp
qed

lemma b64_alphabet_length: "length b64_alphabet = 64"
  by (simp add: b64_alphabet_def)

lemma b64_alphabet_distinct: "distinct b64_alphabet"
  by (simp add: b64_alphabet_def)

lemma b64_sym_eq_iff:
  assumes "m < 64" "n < 64"
  shows "b64_sym m = b64_sym n \<longleftrightarrow> m = n"
proof -
  have "b64_alphabet ! m = b64_alphabet ! n \<longleftrightarrow> m = n"
    using assms b64_alphabet_distinct b64_alphabet_length
    by (simp add: nth_eq_iff_index_eq)
  with assms show ?thesis
    by (simp add: b64_sym_def)
qed

lemma b64_sym_not_pad: "b64_sym n \<noteq> CHR ''=''"
proof -
  have "n mod 64 < length b64_alphabet"
    by (simp add: b64_alphabet_length)
  then have "b64_alphabet ! (n mod 64) \<in> set b64_alphabet"
    by (rule nth_mem)
  moreover have "CHR ''='' \<notin> set b64_alphabet"
    by (simp add: b64_alphabet_def)
  ultimately show ?thesis
    unfolding b64_sym_def by metis
qed

lemma digits_eq:
  fixes a a' b b' k :: nat
  assumes "b < k" "b' < k" "a * k + b = a' * k + b'"
  shows "a = a' \<and> b = b'"
proof -
  have "(a * k + b) div k = a" "(a * k + b) mod k = b"
    using assms(1) by simp_all
  moreover have "(a' * k + b') div k = a'" "(a' * k + b') mod k = b'"
    using assms(2) by simp_all
  ultimately show ?thesis using assms(3) by simp
qed

lemma div_mod_eq:
  fixes x x' k :: nat
  assumes "x div k = x' div k" "x mod k = x' mod k"
  shows "x = x'"
  using assms by (metis div_mult_mod_eq)

lemma sextet1:
  fixes x x' :: nat
  assumes "x < 256" "x' < 256" "b64_sym (x div 4) = b64_sym (x' div 4)"
  shows "x div 4 = x' div 4"
proof -
  have "x div 4 < 64" "x' div 4 < 64"
    using assms(1,2) by simp_all
  with assms(3) show ?thesis
    by (simp add: b64_sym_eq_iff)
qed

lemma sextet2:
  fixes x x' y y' :: nat
  assumes "b64_sym ((x mod 4) * 16 + y div 16) = b64_sym ((x' mod 4) * 16 + y' div 16)"
    and "y < 256" "y' < 256"
  shows "x mod 4 = x' mod 4 \<and> y div 16 = y' div 16"
proof -
  have hi: "x mod 4 < 4" "x' mod 4 < 4"
    by simp_all
  have lo: "y div 16 < 16" "y' div 16 < 16"
    using assms(2,3) by simp_all
  have "(x mod 4) * 16 + y div 16 < 64" "(x' mod 4) * 16 + y' div 16 < 64"
    using hi lo by linarith+
  with assms(1) have "(x mod 4) * 16 + y div 16 = (x' mod 4) * 16 + y' div 16"
    by (simp add: b64_sym_eq_iff)
  with lo show ?thesis
    by (rule digits_eq [of "y div 16" 16 "y' div 16" "x mod 4" "x' mod 4"])
qed

lemma sextet3:
  fixes y y' z z' :: nat
  assumes "b64_sym ((y mod 16) * 4 + z div 64) = b64_sym ((y' mod 16) * 4 + z' div 64)"
    and "z < 256" "z' < 256"
  shows "y mod 16 = y' mod 16 \<and> z div 64 = z' div 64"
proof -
  have hi: "y mod 16 < 16" "y' mod 16 < 16"
    by simp_all
  have lo: "z div 64 < 4" "z' div 64 < 4"
    using assms(2,3) by simp_all
  have "(y mod 16) * 4 + z div 64 < 64" "(y' mod 16) * 4 + z' div 64 < 64"
    using hi lo by linarith+
  with assms(1) have "(y mod 16) * 4 + z div 64 = (y' mod 16) * 4 + z' div 64"
    by (simp add: b64_sym_eq_iff)
  with lo show ?thesis
    by (rule digits_eq [of "z div 64" 4 "z' div 64" "y mod 16" "y' mod 16"])
qed

lemma sextet4:
  fixes z z' :: nat
  assumes "b64_sym (z mod 64) = b64_sym (z' mod 64)"
  shows "z mod 64 = z' mod 64"
  using assms by (simp add: b64_sym_eq_iff)

lemma sextet2_0:
  fixes x x' :: nat
  assumes "b64_sym ((x mod 4) * 16) = b64_sym ((x' mod 4) * 16)"
  shows "x mod 4 = x' mod 4"
proof -
  have "x mod 4 < 4" "x' mod 4 < 4"
    by simp_all
  then have "(x mod 4) * 16 < 64" "(x' mod 4) * 16 < 64"
    by linarith+
  with assms have "(x mod 4) * 16 = (x' mod 4) * 16"
    by (simp add: b64_sym_eq_iff)
  then show ?thesis by simp
qed

lemma sextet3_0:
  fixes y y' :: nat
  assumes "b64_sym ((y mod 16) * 4) = b64_sym ((y' mod 16) * 4)"
  shows "y mod 16 = y' mod 16"
proof -
  have "y mod 16 < 16" "y' mod 16 < 16"
    by simp_all
  then have "(y mod 16) * 4 < 64" "(y' mod 16) * 4 < 64"
    by linarith+
  with assms have "(y mod 16) * 4 = (y' mod 16) * 4"
    by (simp add: b64_sym_eq_iff)
  then show ?thesis by simp
qed

lemma group1_nat:
  fixes x x' :: nat
  assumes "x < 256" "x' < 256"
    and "b64_sym (x div 4) = b64_sym (x' div 4)"
    and "b64_sym ((x mod 4) * 16) = b64_sym ((x' mod 4) * 16)"
  shows "x = x'"
proof -
  have "x div 4 = x' div 4"
    using assms(1-3) by (rule sextet1)
  moreover have "x mod 4 = x' mod 4"
    using assms(4) by (rule sextet2_0)
  ultimately show ?thesis by (rule div_mod_eq)
qed

lemma group2_nat:
  fixes x x' y y' :: nat
  assumes "x < 256" "x' < 256" "y < 256" "y' < 256"
    and "b64_sym (x div 4) = b64_sym (x' div 4)"
    and "b64_sym ((x mod 4) * 16 + y div 16) = b64_sym ((x' mod 4) * 16 + y' div 16)"
    and "b64_sym ((y mod 16) * 4) = b64_sym ((y' mod 16) * 4)"
  shows "x = x' \<and> y = y'"
proof -
  have d: "x div 4 = x' div 4"
    using assms(1,2,5) by (rule sextet1)
  have m: "x mod 4 = x' mod 4 \<and> y div 16 = y' div 16"
    using assms(6,3,4) by (rule sextet2)
  have n: "y mod 16 = y' mod 16"
    using assms(7) by (rule sextet3_0)
  from m have m1: "x mod 4 = x' mod 4" and m2: "y div 16 = y' div 16"
    by blast+
  from d m1 have "x = x'" by (rule div_mod_eq)
  moreover from m2 n have "y = y'" by (rule div_mod_eq)
  ultimately show ?thesis by blast
qed

lemma group3_nat:
  fixes x x' y y' z z' :: nat
  assumes "x < 256" "x' < 256" "y < 256" "y' < 256" "z < 256" "z' < 256"
    and "b64_sym (x div 4) = b64_sym (x' div 4)"
    and "b64_sym ((x mod 4) * 16 + y div 16) = b64_sym ((x' mod 4) * 16 + y' div 16)"
    and "b64_sym ((y mod 16) * 4 + z div 64) = b64_sym ((y' mod 16) * 4 + z' div 64)"
    and "b64_sym (z mod 64) = b64_sym (z' mod 64)"
  shows "x = x' \<and> y = y' \<and> z = z'"
proof -
  have d: "x div 4 = x' div 4"
    using assms(1,2,7) by (rule sextet1)
  have m: "x mod 4 = x' mod 4 \<and> y div 16 = y' div 16"
    using assms(8,3,4) by (rule sextet2)
  have n: "y mod 16 = y' mod 16 \<and> z div 64 = z' div 64"
    using assms(9,5,6) by (rule sextet3)
  have k: "z mod 64 = z' mod 64"
    using assms(10) by (rule sextet4)
  from m have m1: "x mod 4 = x' mod 4" and m2: "y div 16 = y' div 16"
    by blast+
  from n have n1: "y mod 16 = y' mod 16" and n2: "z div 64 = z' div 64"
    by blast+
  from d m1 have "x = x'" by (rule div_mod_eq)
  moreover from m2 n1 have "y = y'" by (rule div_mod_eq)
  moreover from n2 k have "z = z'" by (rule div_mod_eq)
  ultimately show ?thesis by blast
qed

lemma group1_inj:
  assumes "b64_sym (of_char a div 4) = b64_sym (of_char a' div 4)"
    and "b64_sym ((of_char a mod 4) * 16) = b64_sym ((of_char a' mod 4) * 16)"
  shows "a = a'"
proof -
  have "(of_char a :: nat) = of_char a'"
    using of_char_less_256 of_char_less_256 assms by (rule group1_nat)
  then show ?thesis by (rule of_char_eqI)
qed

lemma group2_inj:
  assumes "b64_sym (of_char a div 4) = b64_sym (of_char a' div 4)"
    and "b64_sym ((of_char a mod 4) * 16 + of_char b div 16)
           = b64_sym ((of_char a' mod 4) * 16 + of_char b' div 16)"
    and "b64_sym ((of_char b mod 16) * 4) = b64_sym ((of_char b' mod 16) * 4)"
  shows "a = a' \<and> b = b'"
proof -
  have "(of_char a :: nat) = of_char a' \<and> (of_char b :: nat) = of_char b'"
    using of_char_less_256 of_char_less_256 of_char_less_256 of_char_less_256 assms
    by (rule group2_nat)
  then show ?thesis by (blast intro: of_char_eqI)
qed

lemma group3_inj:
  assumes "b64_sym (of_char a div 4) = b64_sym (of_char a' div 4)"
    and "b64_sym ((of_char a mod 4) * 16 + of_char b div 16)
           = b64_sym ((of_char a' mod 4) * 16 + of_char b' div 16)"
    and "b64_sym ((of_char b mod 16) * 4 + of_char c div 64)
           = b64_sym ((of_char b' mod 16) * 4 + of_char c' div 64)"
    and "b64_sym (of_char c mod 64) = b64_sym (of_char c' mod 64)"
  shows "a = a' \<and> b = b' \<and> c = c'"
proof -
  have "(of_char a :: nat) = of_char a' \<and> (of_char b :: nat) = of_char b'
      \<and> (of_char c :: nat) = of_char c'"
    using of_char_less_256 of_char_less_256 of_char_less_256 of_char_less_256
      of_char_less_256 of_char_less_256 assms
    by (rule group3_nat)
  then show ?thesis by (blast intro: of_char_eqI)
qed

lemma pad_not_b64_sym: "CHR ''='' \<noteq> b64_sym n"
  using b64_sym_not_pad [of n] by simp

lemma encode1_inj:
  assumes "urlsafe_b64encode [a] = urlsafe_b64encode ys"
  shows "[a] = ys"
proof (cases ys rule: urlsafe_b64encode.cases)
  case 1
  with assms show ?thesis by (simp add: Let_def)
next
  case (2 a')
  with assms have "b64_sym (of_char a div 4) = b64_sym (of_char a' div 4)"
    and "b64_sym ((of_char a mod 4) * 16) = b64_sym ((of_char a' mod 4) * 16)"
    by (simp_all add: Let_def)
  then have "a = a'" by (rule group1_inj)
  with 2 show ?thesis by simp
next
  case (3 a' b')
  with assms show ?thesis by (simp add: Let_def pad_not_b64_sym)
next
  case (4 a' b' c' rest')
  with assms show ?thesis by (simp add: Let_def pad_not_b64_sym)
qed

lemma encode2_inj:
  assumes "urlsafe_b64encode [a, b] = urlsafe_b64encode ys"
  shows "[a, b] = ys"
proof (cases ys rule: urlsafe_b64encode.cases)
  case 1
  with assms show ?thesis by (simp add: Let_def)
next
  case (2 a')
  with assms show ?thesis by (simp add: Let_def b64_sym_not_pad)
next
  case (3 a' b')
  with assms have "b64_sym (of_char a div 4) = b64_sym (of_char a' div 4)"
    and "b64_sym ((of_char a mod 4) * 16 + of_char b div 16)
           = b64_sym ((of_char a' mod 4) * 16 + of_char b' div 16)"
    and "b64_sym ((of_char b mod 16) * 4) = b64_sym ((of_char b' mod 16) * 4)"
    by (simp_all add: Let_def)
  then have "a = a' \<and> b = b'" by (rule group2_inj)
  with 3 show ?thesis by simp
next
  case (4 a' b' c' rest')
  with assms show ?thesis by (simp add: Let_def pad_not_b64_sym)
qed

lemma encode3_inj:
  assumes "urlsafe_b64encode (a # b # c # rest) = urlsafe_b64encode ys"
  shows "\<exists>rest'. ys = a # b # c # rest' \<and> urlsafe_b64encode rest = urlsafe_b64encode rest'"
proof (cases ys rule: urlsafe_b64encode.cases)
  case 1
  with assms show ?thesis by (simp add: Let_def)
next
  case (2 a')
  with assms show ?thesis by (simp add: Let_def b64_sym_not_pad)
next
  case (3 a' b')
  with assms show ?thesis by (simp add: Let_def b64_sym_not_pad)
next
  case (4 a' b' c' rest')
  with assms have "b64_sym (of_char a div 4) = b64_sym (of_char a' div 4)"
    and "b64_sym ((of_char a mod 4) * 16 + of_char b div 16)
           = b64_sym ((of_char a' mod 4) * 16 + of_char b' div 16)"
    and "b64_sym ((of_char b mod 16) * 4 + of_char c div 64)
           = b64_sym ((of_char b' mod 16) * 4 + of_char c' div 64)"
    and "b64_sym (of_char c mod 64) = b64_sym (of_char c' mod 64)"
    and r: "urlsafe_b64encode rest = urlsafe_b64encode rest'"
    by (simp_all add: Let_def)
  then have "a = a' \<and> b = b' \<and> c = c'" by (intro group3_inj)
  with 4 r show ?thesis by simp
qed

lemma urlsafe_b64encode_inj:
  "urlsafe_b64encode xs = urlsafe_b64encode ys \<Longrightarrow> xs = ys"
proof (induction xs arbitrary: ys rule: urlsafe_b64encode.induct)
  case 1
  then show ?case
    by (cases ys rule: urlsafe_b64encode.cases) (simp_all add: Let_def)
next
  case (2 a)
  then show ?case by (rule encode1_inj)
next
  case (3 a b)
  then show ?case by (rule encode2_inj)
next
  case (4 a b c rest)
  from encode3_inj [OF "4.prems"] obtain rest' where
    ys: "ys = a # b # c # rest'" and r: "urlsafe_b64encode rest = urlsafe_b64encode rest'"
    by blast
  from "4.IH" [OF refl refl refl r] ys show ?case by simp
qed

lemma example_doc_id: "urlsafe_b64encode ''Q1'' = ''UTE=''"
  by (simp add: b64_sym_def b64_alphabet_def)

lemma add_entry_upsert:
  assumes "upsert_succeeds conn now_v document vector_fields index_name"
    and "map_of document ''Question'' = Some (PStr q)"
  shows "\<exists>e es. run_embedding_request conn
                  (map (\<lambda>field. the (map_of document field)) (map fst vector_fields))
                = Inr (e # es)
         \<and> add_entry_to_index conn now_v store document vector_fields index_name
           = (AList.update ''DateLastModified'' (PStr now_v) document,
              store(index_name :=
                AList.update (urlsafe_b64encode q)
                  \<lparr>entry_embedding = e,
                   entry_metadata = stored_metadata now_v document vector_fields,
                   entry_document = PStr q\<rparr>
                  (store index_name)))"
proof -
  from assms obtain e es where
    v: "list_all (\<lambda>field. field \<in> set (map fst document)) (map fst vector_fields)" and
    enc: "encodable conn q" and
    emb: "run_embedding_request conn
            (map (\<lambda>field. the (map_of document field)) (map fst vector_fields)) = Inr (e # es)"
    and acc: "upsert_accepted conn index_name (urlsafe_b64encode q)
                \<lparr>entry_embedding = e,
                 entry_metadata = stored_metadata now_v document vector_fields,
                 entry_document = PStr q\<rparr>"
    by (auto simp: upsert_succeeds_def split: sum.splits list.splits)
  have q': "map_of (AList.update ''DateLastModified'' (PStr now_v) document) ''Question''
              = Some (PStr q)"
    using assms(2) by (simp add: update_conv')
  have "add_entry_to_index conn now_v store document vector_fields index_name
           = (AList.update ''DateLastModified'' (PStr now_v) document,
              store(index_name :=
                AList.update (urlsafe_b64encode q)
                  \<lparr>entry_embedding = e,
                   entry_metadata = stored_metadata now_v document vector_fields,
                   entry_document = PStr q\<rparr>
                  (store index_name)))"
    unfolding add_entry_to_index_def Let_def
    using v emb q' enc acc by (simp add: stored_metadata_def)
  with emb show ?thesis by blast
qed

lemma add_entry_dropped:
  assumes "\<not> upsert_succeeds conn now_v document vector_fields index_name"
  shows "snd (add_entry_to_index conn now_v store document vector_fields index_name) = store"
proof (cases "list_all (\<lambda>field. field \<in> set (map fst document)) (map fst vector_fields)")
  case False
  then show ?thesis by (simp add: add_entry_to_index_def)
next
  case valid: True
  have q: "map_of (AList.update ''DateLastModified'' (PStr now_v) document) ''Question''
             = map_of document ''Question''"
    by (simp add: update_conv')
  show ?thesis
  proof (cases "run_embedding_request conn
            (map (\<lambda>field. the (map_of document field)) (map fst vector_fields))")
    case (Inl e)
    with valid show ?thesis by (simp add: add_entry_to_index_def Let_def)
  next
    case emb: (Inr embeddings)
    show ?thesis
    proof (cases "map_of document ''Question''")
      case None
      with valid emb q show ?thesis by (simp add: add_entry_to_index_def Let_def)
    next
      case (Some v)
      show ?thesis
      proof (cases "\<exists>qs. v = PStr qs")
        case False
        with valid emb q Some show ?thesis
          by (cases v) (simp_all add: add_entry_to_index_def Let_def)
      next
        case True
        then obtain qs where v: "v = PStr qs" by blast
        show ?thesis
        proof (cases "encodable conn qs")
          case False
          with valid emb q Some v show ?thesis
            by (simp add: add_entry_to_index_def Let_def)
        next
          case enc: True
          show ?thesis
          proof (cases embeddings)
            case Nil
            with valid emb q Some v enc show ?thesis
              by (simp add: add_entry_to_index_def Let_def)
          next
            case (Cons e es)
            with assms valid emb Some v enc
            have "\<not> upsert_accepted conn index_name (urlsafe_b64encode qs)
                    \<lparr>entry_embedding = e,
                     entry_metadata = stored_metadata now_v document vector_fields,
                     entry_document = PStr qs\<rparr>"
              by (simp add: upsert_succeeds_def)
            with valid emb q Some v enc Cons show ?thesis
              by (simp add: add_entry_to_index_def Let_def stored_metadata_def)
          qed
        qed
      qed
    qed
  qed
qed

lemma add_entry_stamps:
  assumes "upsert_succeeds conn now_v document vector_fields index_name"
  shows "fst (add_entry_to_index conn now_v store document vector_fields index_name)
           = AList.update ''DateLastModified'' (PStr now_v) document"
proof -
  from assms obtain q where "map_of document ''Question'' = Some (PStr q)"
    by (auto simp: upsert_succeeds_def split: option.splits pyval.splits)
  from add_entry_upsert [OF assms this, of store] show ?thesis by auto
qed

lemma one_entry_per_key:
  "distinct (map fst al) \<Longrightarrow> k \<in> fst ` set al \<Longrightarrow>
     length (filter (\<lambda>kv. fst kv = k) al) = 1"
proof (induction al)
  case Nil
  then show ?case by simp
next
  case (Cons x xs)
  show ?case
  proof (cases "fst x = k")
    case True
    with Cons.prems have "k \<notin> fst ` set xs" by auto
    then have "filter (\<lambda>kv. fst kv = k) xs = []"
      by (auto simp: filter_empty_conv)
    with True show ?thesis by simp
  next
    case False
    with Cons show ?thesis by auto
  qed
qed

lemma map_of_filter_key:
  "P k \<Longrightarrow> map_of (filter (\<lambda>kv. P (fst kv)) xs) k = map_of xs k"
  by (induction xs) auto

lemma length_update:
  "length (AList.update k v al) = (if k \<in> fst ` set al then length al else Suc (length al))"
proof -
  have "length (map fst (AList.update k v al))
          = (if k \<in> fst ` set al then length al else Suc (length al))"
    by (simp add: update_keys)
  then show ?thesis by simp
qed

text \<open>
  Claim C8, as amended. The identifier of a stored document is the URL-safe base64 text
  of its \<open>Question\<close> alone, and two questions with the same identifier are equal. When
  two calls with documents of the same \<open>Question\<close> both have their upsert succeed, the
  collection then holds exactly one entry under that identifier, the second call has
  added no entry, and the entry's content is that of the second call. Each such call
  stamps its document with the time of the call, and the stored metadata carries the
  second call's timestamp unless \<open>DateLastModified\<close> is itself named as an embedding
  field. Entries under other identifiers and other collections are as before. A call
  whose upsert does not succeed leaves the store as it was.
\<close>

theorem add_entry_to_index_upsert:
  assumes q1: "map_of document1 ''Question'' = Some (PStr q)"
    and q2: "map_of document2 ''Question'' = Some (PStr q)"
    and r1: "upsert_succeeds conn now1 document1 vector_fields1 index_name"
    and r2: "upsert_succeeds conn now2 document2 vector_fields2 index_name"
    and d: "distinct (map fst (store index_name))"
    and s1: "store1 = snd (add_entry_to_index conn now1 store document1 vector_fields1
                        index_name)"
    and s2: "store2 = snd (add_entry_to_index conn now2 store1 document2 vector_fields2
                        index_name)"
  shows "length (filter (\<lambda>kv. fst kv = urlsafe_b64encode q) (store2 index_name)) = 1
     \<and> length (store2 index_name) = length (store1 index_name)
     \<and> (store index_name = [] \<longrightarrow> length (store2 index_name) = 1)
     \<and> (\<exists>e es. run_embedding_request conn
                   (map (\<lambda>field. the (map_of document2 field)) (map fst vector_fields2))
                 = Inr (e # es)
           \<and> map_of (store2 index_name) (urlsafe_b64encode q)
              = Some \<lparr>entry_embedding = e,
                      entry_metadata = stored_metadata now2 document2 vector_fields2,
                      entry_document = PStr q\<rparr>)
     \<and> fst (add_entry_to_index conn now1 store document1 vector_fields1 index_name)
         = AList.update ''DateLastModified'' (PStr now1) document1
     \<and> fst (add_entry_to_index conn now2 store1 document2 vector_fields2 index_name)
         = AList.update ''DateLastModified'' (PStr now2) document2
     \<and> (''DateLastModified'' \<notin> set (map snd vector_fields2) \<longrightarrow>
           map_of (stored_metadata now2 document2 vector_fields2) ''DateLastModified''
             = Some (PStr now2))
     \<and> (\<forall>k. k \<noteq> urlsafe_b64encode q \<longrightarrow>
            map_of (store2 index_name) k = map_of (store index_name) k)
     \<and> (\<forall>name. name \<noteq> index_name \<longrightarrow> store2 name = store name)
     \<and> (\<forall>q'. urlsafe_b64encode q' = urlsafe_b64encode q \<longleftrightarrow> q' = q)
     \<and> (\<forall>now3 store3 document3 vector_fields3.
           \<not> upsert_succeeds conn now3 document3 vector_fields3 index_name \<longrightarrow>
           snd (add_entry_to_index conn now3 store3 document3 vector_fields3 index_name)
             = store3)"
proof -
  let ?id = "urlsafe_b64encode q"
  from add_entry_upsert [OF r1 q1, of store] s1 obtain e1 where
    st1: "store1 = store(index_name :=
            AList.update ?id
              \<lparr>entry_embedding = e1,
               entry_metadata = stored_metadata now1 document1 vector_fields1,
               entry_document = PStr q\<rparr> (store index_name))"
    by auto
  from add_entry_upsert [OF r2 q2, of store1] s2 obtain e2 es2 where
    emb2: "run_embedding_request conn
             (map (\<lambda>field. the (map_of document2 field)) (map fst vector_fields2))
           = Inr (e2 # es2)" and
    st2: "store2 = store1(index_name :=
            AList.update ?id
              \<lparr>entry_embedding = e2,
               entry_metadata = stored_metadata now2 document2 vector_fields2,
               entry_document = PStr q\<rparr> (store1 index_name))"
    by auto
  have d1: "distinct (map fst (store1 index_name))"
    using d by (simp add: st1 distinct_update)
  have in1: "?id \<in> fst ` set (store1 index_name)"
    by (simp add: st1 dom_update)
  have d2: "distinct (map fst (store2 index_name))"
    using d1 by (simp add: st2 distinct_update)
  have in2: "?id \<in> fst ` set (store2 index_name)"
    by (simp add: st2 dom_update)
  have one: "length (filter (\<lambda>kv. fst kv = ?id) (store2 index_name)) = 1"
    using d2 in2 by (rule one_entry_per_key)
  have len: "length (store2 index_name) = length (store1 index_name)"
    using in1 by (simp add: st2 length_update)
  have len1: "store index_name = [] \<longrightarrow> length (store2 index_name) = 1"
    unfolding len by (simp add: st1)
  have content: "map_of (store2 index_name) ?id
              = Some \<lparr>entry_embedding = e2,
                      entry_metadata = stored_metadata now2 document2 vector_fields2,
                      entry_document = PStr q\<rparr>"
    by (simp add: st2 update_conv')
  have stamped1: "fst (add_entry_to_index conn now1 store document1 vector_fields1 index_name)
         = AList.update ''DateLastModified'' (PStr now1) document1"
    using r1 by (rule add_entry_stamps)
  have stamped: "fst (add_entry_to_index conn now2 store1 document2 vector_fields2 index_name)
         = AList.update ''DateLastModified'' (PStr now2) document2"
    using r2 by (rule add_entry_stamps)
  have stamp: "''DateLastModified'' \<notin> set (map snd vector_fields2) \<longrightarrow>
           map_of (stored_metadata now2 document2 vector_fields2) ''DateLastModified''
             = Some (PStr now2)"
  proof
    assume a: "''DateLastModified'' \<notin> set (map snd vector_fields2)"
    have "map_of (filter (\<lambda>kv. fst kv \<notin> set (map snd vector_fields2))
                   (AList.update ''DateLastModified'' (PStr now2) document2))
            ''DateLastModified''
          = map_of (AList.update ''DateLastModified'' (PStr now2) document2)
              ''DateLastModified''"
      using a by (rule map_of_filter_key)
    then show "map_of (stored_metadata now2 document2 vector_fields2) ''DateLastModified''
             = Some (PStr now2)"
      by (simp add: stored_metadata_def update_conv')
  qed
  have others: "\<forall>k. k \<noteq> ?id \<longrightarrow> map_of (store2 index_name) k = map_of (store index_name) k"
    by (simp add: st2 st1 update_conv')
  have names: "\<forall>name. name \<noteq> index_name \<longrightarrow> store2 name = store name"
    by (simp add: st2 st1)
  have inj: "\<forall>q'. urlsafe_b64encode q' = ?id \<longleftrightarrow> q' = q"
    by (auto dest: urlsafe_b64encode_inj)
  have dropped: "\<forall>now3 store3 document3 vector_fields3.
           \<not> upsert_succeeds conn now3 document3 vector_fields3 index_name \<longrightarrow>
           snd (add_entry_to_index conn now3 store3 document3 vector_fields3 index_name)
             = store3"
    using add_entry_dropped by blast
  have content': "\<exists>e es. run_embedding_request conn
                   (map (\<lambda>field. the (map_of document2 field)) (map fst vector_fields2))
                 = Inr (e # es)
           \<and> map_of (store2 index_name) ?id
              = Some \<lparr>entry_embedding = e,
                      entry_metadata = stored_metadata now2 document2 vector_fields2,
                      entry_document = PStr q\<rparr>"
    using emb2 content by blast
  from one len len1 content' stamped1 stamped stamp others names inj dropped show ?thesis
    by (intro conjI)
qed

lemma example_upsert_succeeds:
  "upsert_succeeds (example_connector example_hits) now_v (example_document a)
     example_vector_fields ''cache''"
  by (simp add: upsert_succeeds_def example_connector_def example_document_def
        example_vector_fields_def Let_def b64_sym_def b64_alphabet_def)

theorem add_entry_to_index_upsert_witness:
  "upsert_succeeds (example_connector example_hits) ''t1'' (example_document ''A1'')
     example_vector_fields ''cache''
   \<and> upsert_succeeds (example_connector example_hits) ''t2'' (example_document ''A2'')
     example_vector_fields ''cache''
   \<and> snd (add_entry_to_index (example_connector example_hits) ''t2''
        (snd (add_entry_to_index (example_connector example_hits) ''t1'' empty_store
               (example_document ''A1'') example_vector_fields ''cache''))
        (example_document ''A2'') example_vector_fields ''cache'') ''cache''
     = [(''UTE='',
         \<lparr>entry_embedding = [0.5, 0.5],
          entry_metadata = [(''Question'', PStr ''Q1''), (''Answer'', PStr ''A2''),
                            (''DateLastModified'', PStr ''t2'')],
          entry_document = PStr ''Q1''\<rparr>)]
   \<and> length (filter (\<lambda>kv. fst kv = urlsafe_b64encode ''Q1'')
        (snd (add_entry_to_index (example_connector example_hits) ''t2''
          (snd (add_entry_to_index (example_connector example_hits) ''t1'' empty_store
                 (example_document ''A1'') example_vector_fields ''cache''))
          (example_document ''A2'') example_vector_fields ''cache'') ''cache'')) = 1"
proof -
  let ?conn = "example_connector example_hits"
  let ?s1 = "snd (add_entry_to_index ?conn ''t1'' empty_store
               (example_document ''A1'') example_vector_fields ''cache'')"
  let ?s2 = "snd (add_entry_to_index ?conn ''t2'' ?s1
               (example_document ''A2'') example_vector_fields ''cache'')"
  have q: "map_of (example_document ''A1'') ''Question'' = Some (PStr ''Q1'')"
      "map_of (example_document ''A2'') ''Question'' = Some (PStr ''Q1'')"
    by (simp_all add: example_document_def)
  have d: "distinct (map fst (empty_store ''cache''))"
    by (simp add: empty_store_def)
  from add_entry_to_index_upsert [where store = empty_store and index_name = "''cache''"
      and conn = ?conn and ?now1.0 = "''t1''" and ?now2.0 = "''t2''"
      and ?document1.0 = "example_document ''A1''"
      and ?document2.0 = "example_document ''A2''"
      and ?vector_fields1.0 = example_vector_fields
      and ?vector_fields2.0 = example_vector_fields
      and q = "''Q1''", OF q example_upsert_succeeds example_upsert_succeeds d refl refl]
  have one: "length (filter (\<lambda>kv. fst kv = urlsafe_b64encode ''Q1'') (?s2 ''cache'')) = 1"
    by blast
  have s1: "?s1 ''cache'' = [(''UTE='',
         \<lparr>entry_embedding = [0.5, 0.5],
          entry_metadata = [(''Question'', PStr ''Q1''), (''Answer'', PStr ''A1''),
                            (''DateLastModified'', PStr ''t1'')],
          entry_document = PStr ''Q1''\<rparr>)]"
    by (simp add: add_entry_to_index_def example_connector_def example_document_def
        example_vector_fields_def empty_store_def Let_def b64_sym_def b64_alphabet_def)
  have s1': "\<And>st. st ''cache'' = ?s1 ''cache'' \<Longrightarrow>
     snd (add_entry_to_index ?conn ''t2'' st (example_document ''A2'')
            example_vector_fields ''cache'') ''cache''
     = [(''UTE='',
         \<lparr>entry_embedding = [0.5, 0.5],
          entry_metadata = [(''Question'', PStr ''Q1''), (''Answer'', PStr ''A2''),
                            (''DateLastModified'', PStr ''t2'')],
          entry_document = PStr ''Q1''\<rparr>)]"
    unfolding s1
    by (simp add: add_entry_to_index_def example_connector_def example_document_def
        example_vector_fields_def Let_def b64_sym_def b64_alphabet_def)
  have s2: "?s2 ''cache'' = [(''UTE='',
         \<lparr>entry_embedding = [0.5, 0.5],
          entry_metadata = [(''Question'', PStr ''Q1''), (''Answer'', PStr ''A2''),
                            (''DateLastModified'', PStr ''t2'')],
          entry_document = PStr ''Q1''\<rparr>)]"
    by (rule s1') (rule refl)
  from example_upsert_succeeds [of "''t1''" "''A1''"]
    example_upsert_succeeds [of "''t2''" "''A2''"] one s2 show ?thesis
    by (intro conjI)
qed

lemma example_not_upsert_succeeds:
  "\<not> upsert_succeeds (example_connector example_hits) now_v (example_document ''A2'')
       example_two_vector_fields ''cache''"
  by (simp add: upsert_succeeds_def example_document_def example_two_vector_fields_def)

lemma example_blank_not_upsert_succeeds:
  "\<not> upsert_succeeds (example_connector example_hits) now_v (example_blank_document a)
       example_vector_fields ''cache''"
  by (simp add: upsert_succeeds_def example_blank_document_def example_vector_fields_def
        example_connector_def)

text \<open>A second call whose document lacks a declared vector field is dropped, and the
  stored entry keeps the content of the first call. Two calls with an empty question
  store nothing, since the store refuses the empty identifier. Two calls that name
  \<open>DateLastModified\<close> as an embedding field store an entry without a timestamp.\<close>

theorem add_entry_to_index_counterexample:
  "map_of example_full_document ''Question'' = Some (PStr ''Q1'')
   \<and> map_of (example_document ''A2'') ''Question'' = Some (PStr ''Q1'')
   \<and> snd (add_entry_to_index (example_connector example_hits) ''t2''
        (snd (add_entry_to_index (example_connector example_hits) ''t1'' empty_store
               example_full_document example_two_vector_fields ''cache''))
        (example_document ''A2'') example_two_vector_fields ''cache'') ''cache''
     = [(''UTE='',
         \<lparr>entry_embedding = [0.5, 0.5],
          entry_metadata = [(''Question'', PStr ''Q1''), (''Schemas'', PStr ''S1''),
                            (''Answer'', PStr ''A1''), (''DateLastModified'', PStr ''t1'')],
          entry_document = PStr ''Q1''\<rparr>)]
   \<and> map_of (example_blank_document ''A1'') ''Question'' = Some (PStr [])
   \<and> snd (add_entry_to_index (example_connector example_hits) ''t2''
        (snd (add_entry_to_index (example_connector example_hits) ''t1'' empty_store
               (example_blank_document ''A1'') example_vector_fields ''cache''))
        (example_blank_document ''A2'') example_vector_fields ''cache'') ''cache''
     = []
   \<and> snd (add_entry_to_index (example_connector example_hits) ''t2''
        (snd (add_entry_to_index (example_connector example_hits) ''t1'' empty_store
               (example_document ''A1'') example_stamp_vector_fields ''cache''))
        (example_document ''A2'') example_stamp_vector_fields ''cache'') ''cache''
     = [(''UTE='',
         \<lparr>entry_embedding = [0.5, 0.5],
          entry_metadata = [(''Question'', PStr ''Q1''), (''Answer'', PStr ''A2'')],
          entry_document = PStr ''Q1''\<rparr>)]"
proof -
  let ?conn = "example_connector example_hits"
  let ?s1 = "snd (add_entry_to_index ?conn ''t1'' empty_store
               example_full_document example_two_vector_fields ''cache'')"
  have s1: "?s1 ''cache'' = [(''UTE='',
         \<lparr>entry_embedding = [0.5, 0.5],
          entry_metadata = [(''Question'', PStr ''Q1''), (''Schemas'', PStr ''S1''),
                            (''Answer'', PStr ''A1''), (''DateLastModified'', PStr ''t1'')],
          entry_document = PStr ''Q1''\<rparr>)]"
    by (simp add: add_entry_to_index_def example_connector_def example_full_document_def
        example_two_vector_fields_def empty_store_def Let_def b64_sym_def b64_alphabet_def)
  have "snd (add_entry_to_index ?conn ''t2'' ?s1 (example_document ''A2'')
          example_two_vector_fields ''cache'') = ?s1"
    using example_not_upsert_succeeds by (rule add_entry_dropped)
  with s1 have a: "snd (add_entry_to_index ?conn ''t2'' ?s1 (example_document ''A2'')
          example_two_vector_fields ''cache'') ''cache'' = [(''UTE='',
         \<lparr>entry_embedding = [0.5, 0.5],
          entry_metadata = [(''Question'', PStr ''Q1''), (''Schemas'', PStr ''S1''),
                            (''Answer'', PStr ''A1''), (''DateLastModified'', PStr ''t1'')],
          entry_document = PStr ''Q1''\<rparr>)]"
    by simp
  have b1: "snd (add_entry_to_index ?conn ''t1'' empty_store (example_blank_document ''A1'')
          example_vector_fields ''cache'') = empty_store"
    using example_blank_not_upsert_succeeds by (rule add_entry_dropped)
  have b2: "snd (add_entry_to_index ?conn ''t2'' empty_store (example_blank_document ''A2'')
          example_vector_fields ''cache'') = empty_store"
    using example_blank_not_upsert_succeeds by (rule add_entry_dropped)
  have b: "snd (add_entry_to_index ?conn ''t2''
        (snd (add_entry_to_index ?conn ''t1'' empty_store
               (example_blank_document ''A1'') example_vector_fields ''cache''))
        (example_blank_document ''A2'') example_vector_fields ''cache'') ''cache'' = []"
    unfolding b1 b2 by (simp add: empty_store_def)
  have v: "map_of (example_blank_document ''A1'') ''Question'' = Some (PStr [])"
    by (simp add: example_blank_document_def)
  let ?c1 = "snd (add_entry_to_index ?conn ''t1'' empty_store
               (example_document ''A1'') example_stamp_vector_fields ''cache'')"
  have c1: "?c1 ''cache'' = [(''UTE='',
         \<lparr>entry_embedding = [0.5, 0.5],
          entry_metadata = [(''Question'', PStr ''Q1''), (''Answer'', PStr ''A1'')],
          entry_document = PStr ''Q1''\<rparr>)]"
    by (simp add: add_entry_to_index_def example_connector_def example_document_def
        example_stamp_vector_fields_def empty_store_def Let_def b64_sym_def b64_alphabet_def)
  have c2: "\<And>st. st ''cache'' = ?c1 ''cache'' \<Longrightarrow>
     snd (add_entry_to_index ?conn ''t2'' st (example_document ''A2'')
            example_stamp_vector_fields ''cache'') ''cache''
     = [(''UTE='',
         \<lparr>entry_embedding = [0.5, 0.5],
          entry_metadata = [(''Question'', PStr ''Q1''), (''Answer'', PStr ''A2'')],
          entry_document = PStr ''Q1''\<rparr>)]"
    unfolding c1
    by (simp add: add_entry_to_index_def example_connector_def example_document_def
        example_stamp_vector_fields_def Let_def b64_sym_def b64_alphabet_def)
  have c: "snd (add_entry_to_index ?conn ''t2'' ?c1 (example_document ''A2'')
            example_stamp_vector_fields ''cache'') ''cache''
     = [(''UTE='',
         \<lparr>entry_embedding = [0.5, 0.5],
          entry_metadata = [(''Question'', PStr ''Q1''), (''Answer'', PStr ''A2'')],
          entry_document = PStr ''Q1''\<rparr>)]"
    by (rule c2) (rule refl)
  have q: "map_of example_full_document ''Question'' = Some (PStr ''Q1'')"
    "map_of (example_document ''A2'') ''Question'' = Some (PStr ''Q1'')"
    by (simp_all add: example_full_document_def example_document_def)
  from q a v b c show ?thesis
    by (intro conjI)
qed

end
